theory Spec2Isabelle
  imports Main
begin

section \<open>Python values used by the logger\<close>

text \<open>
  A Python \<^verbatim>\<open>str\<close> is modelled as a \<^typ>\<open>string\<close>; one \<^typ>\<open>char\<close> stands for one
  code point, so the model covers the code points below 256. The built-in string
  methods the sources call (\<^verbatim>\<open>split\<close>, \<^verbatim>\<open>strip\<close>, \<^verbatim>\<open>lower\<close>, \<^verbatim>\<open>in\<close>, \<^verbatim>\<open>startswith\<close>,
  \<^verbatim>\<open>join\<close>, slicing, \<^verbatim>\<open>str\<close> of an integer) are written out below with Python's
  behaviour on that range. Python names that start with an underscore lose it here
  (\<^verbatim>\<open>_is_user_code_frame\<close> is \<open>is_user_code_frame\<close>).
\<close>

definition NL :: string where
  "NL = [CHR 0x0A]"

text \<open>\<^verbatim>\<open>str.isspace\<close> on one character: the characters \<^verbatim>\<open>str.strip()\<close> removes.\<close>

definition is_space :: "char \<Rightarrow> bool" where
  "is_space c = ((of_char c :: nat) \<in> set [0x09, 0x0A, 0x0B, 0x0C, 0x0D, 0x1C, 0x1D, 0x1E, 0x1F, 0x20, 0x85, 0xA0])"

definition strip :: "string \<Rightarrow> string" where
  "strip s = rev (dropWhile is_space (rev (dropWhile is_space s)))"

text \<open>\<^verbatim>\<open>s.split(sep)\<close> for a separator of one character: a string with n separators
  gives n + 1 pieces, the empty string gives one empty piece.\<close>

fun split :: "char \<Rightarrow> string \<Rightarrow> string list" where
  "split sep [] = [[]]"
| "split sep (c # cs) =
     (if c = sep then [] # split sep cs
      else (case split sep cs of [] \<Rightarrow> [[c]] | p # ps \<Rightarrow> (c # p) # ps))"

text \<open>\<^verbatim>\<open>sep.join(parts)\<close>.\<close>

fun join :: "string \<Rightarrow> string list \<Rightarrow> string" where
  "join sep [] = []"
| "join sep [p] = p"
| "join sep (p # q # ps) = p @ sep @ join sep (q # ps)"

text \<open>\<^verbatim>\<open>s.startswith(p)\<close> and the substring test \<^verbatim>\<open>p in s\<close>.\<close>

definition startswith :: "string \<Rightarrow> string \<Rightarrow> bool" where
  "startswith s p = (take (length p) s = p)"

fun py_in :: "string \<Rightarrow> string \<Rightarrow> bool" where
  "py_in p [] = (p = [])"
| "py_in p (c # cs) = (startswith (c # cs) p \<or> py_in p cs)"

text \<open>\<^verbatim>\<open>s.lower()\<close>: the cased characters below 256 are A to Z and the accented
  capitals 0xC0 to 0xDE without the multiplication sign 0xD7; each is 32 below its
  lower-case form.\<close>

definition lower_char :: "char \<Rightarrow> char" where
  "lower_char c =
     (let n = (of_char c :: nat) in
      if (0x41 \<le> n \<and> n \<le> 0x5A) \<or> (0xC0 \<le> n \<and> n \<le> 0xDE \<and> n \<noteq> 0xD7)
      then char_of (n + 32) else c)"

definition lower :: "string \<Rightarrow> string" where
  "lower s = map lower_char s"

text \<open>The slice \<^verbatim>\<open>s[:n]\<close>: a negative bound counts from the end.\<close>

definition slice_to :: "string \<Rightarrow> int \<Rightarrow> string" where
  "slice_to s n = (if 0 \<le> n then take (nat n) s else take (nat (int (length s) + n)) s)"

text \<open>The slice \<^verbatim>\<open>xs[-3:]\<close>: the last three elements, or all of a shorter list.\<close>

definition last3 :: "'a list \<Rightarrow> 'a list" where
  "last3 xs = drop (length xs - 3) xs"

text \<open>\<^verbatim>\<open>str(n)\<close> of an integer: decimal digits, a minus sign for a negative number.\<close>

fun str_nat :: "nat \<Rightarrow> string" where
  "str_nat n = (if n < 10 then [char_of (48 + n)] else str_nat (n div 10) @ [char_of (48 + n mod 10)])"

declare str_nat.simps [simp del]

definition str_int :: "int \<Rightarrow> string" where
  "str_int i = (if i < 0 then CHR ''-'' # str_nat (nat (- i)) else str_nat (nat i))"

text \<open>
  A dictionary keeps its insertion order, so it is an association list whose keys are
  distinct. \<open>dict_set\<close> is the assignment \<^verbatim>\<open>d[k] = v\<close>: it overwrites in place or
  appends; \<open>dict_contains\<close> is \<^verbatim>\<open>k in d\<close>.
\<close>

type_synonym ('k, 'v) dict = "('k \<times> 'v) list"

fun dict_set :: "('k, 'v) dict \<Rightarrow> 'k \<Rightarrow> 'v \<Rightarrow> ('k, 'v) dict" where
  "dict_set [] k v = [(k, v)]"
| "dict_set ((k', v') # d) k v = (if k' = k then (k', v) # d else (k', v') # dict_set d k v)"

definition dict_contains :: "('k, 'v) dict \<Rightarrow> 'k \<Rightarrow> bool" where
  "dict_contains d k = (k \<in> set (map fst d))"

text \<open>The process environment, and \<^verbatim>\<open>os.getenv(name, default)\<close>.\<close>

type_synonym environ = "string \<rightharpoonup> string"

definition getenv :: "environ \<Rightarrow> string \<Rightarrow> string \<Rightarrow> string" where
  "getenv env name dflt = (case env name of None \<Rightarrow> dflt | Some v \<Rightarrow> v)"

section \<open>focused\_traceback.py: which paths are user code\<close>

definition DEFAULT_USER_CODE_PATHS :: "string list" where
  "DEFAULT_USER_CODE_PATHS = [''dcc_backend_common'', ''src/'', ''app/'', ''tests/'']"

definition get_user_code_paths :: "environ \<Rightarrow> string list" where
  "get_user_code_paths env =
     (let env_paths = getenv env ''LOGGER_USER_CODE_PATHS'' [] in
      if env_paths \<noteq> [] then
        (let custom_paths = map strip (filter (\<lambda>p. strip p \<noteq> []) (split CHR '','' env_paths))
         in DEFAULT_USER_CODE_PATHS @ custom_paths)
      else DEFAULT_USER_CODE_PATHS)"

definition is_user_code_frame :: "environ \<Rightarrow> string \<Rightarrow> bool" where
  "is_user_code_frame env filename =
     (let user_paths = get_user_code_paths env in list_ex (\<lambda>path. py_in path filename) user_paths)"

text \<open>
  The specification's words, for comparison with the code. A pattern is a literal substring of
  a path when the path is some text, the pattern, and some more text. The entries of a
  comma-separated value are its maximal stretches without a comma. Whitespace is the
  tab, the line feed, the vertical tab, the form feed, the carriage return, the four
  separators 0x1C to 0x1F, the space, the next-line character and the no-break space
  (the characters below 256 that Python counts as whitespace). An entry trimmed of
  its surrounding whitespace is what stands in it between a stretch of whitespace at
  its start and one at its end, and neither starts nor ends with whitespace. The active
  pattern set is the four defaults together with the trimmed entries of the variable
  that are not empty after trimming; a variable that is not set has no entries.
\<close>

definition literal_substring :: "string \<Rightarrow> string \<Rightarrow> bool" where
  "literal_substring p s = (\<exists>a b. s = a @ p @ b)"

definition comma_entries :: "string \<Rightarrow> string set" where
  "comma_entries s =
     {e. CHR '','' \<notin> set e \<and>
         (\<exists>a b. s = a @ e @ b \<and> (a = [] \<or> last a = CHR '','') \<and> (b = [] \<or> hd b = CHR '',''))}"

definition whitespace :: "char set" where
  "whitespace =
     {CHR 0x09, CHR 0x0A, CHR 0x0B, CHR 0x0C, CHR 0x0D, CHR 0x1C, CHR 0x1D, CHR 0x1E, CHR 0x1F,
      CHR '' '', CHR 0x85, CHR 0xA0}"

definition trimmed_form :: "string \<Rightarrow> string \<Rightarrow> bool" where
  "trimmed_form e t =
     (\<exists>a b. e = a @ t @ b \<and> set a \<subseteq> whitespace \<and> set b \<subseteq> whitespace \<and>
            (t = [] \<or> (hd t \<notin> whitespace \<and> last t \<notin> whitespace)))"

definition active_patterns :: "environ \<Rightarrow> string set" where
  "active_patterns env =
     set DEFAULT_USER_CODE_PATHS \<union>
     {t. t \<noteq> [] \<and>
         (\<exists>e. e \<in> (case env ''LOGGER_USER_CODE_PATHS'' of None \<Rightarrow> {} | Some s \<Rightarrow> comma_entries s)
              \<and> trimmed_form e t)}"

section \<open>focused\_traceback.py: the formatter\<close>

text \<open>
  A call into a value's own methods returns, or raises. What it raises is an
  \<^verbatim>\<open>Exception\<close> (an error, which \<^verbatim>\<open>except Exception\<close> catches) or some other
  \<^verbatim>\<open>BaseException\<close> such as KeyboardInterrupt or SystemExit, which that clause lets
  through.
\<close>

datatype 'a outcome = Returns 'a | RaisesException | RaisesBaseException

text \<open>
  What \<^verbatim>\<open>repr\<close> returns is a \<^verbatim>\<open>str\<close> or an instance of a subclass of \<^verbatim>\<open>str\<close>, and the
  formatter's \<^verbatim>\<open>len\<close>, slice and f-string call that object's own methods. It is
  modelled by the characters it holds and by what these three uses give:
  \<open>str_len\<close> is \<^verbatim>\<open>len(s)\<close>, \<open>str_truncated n\<close> is the text the f-string gets from
  \<^verbatim>\<open>s[:n] + "..."\<close>, and \<open>str_text\<close> is the text the f-string gets from \<^verbatim>\<open>s\<close> itself.
  For a plain \<^verbatim>\<open>str\<close> all three are the built-in ones, \<open>plain_str\<close>.
\<close>

record strobj =
  str_chars :: string
  str_len :: "nat outcome"
  str_truncated :: "int \<Rightarrow> string outcome"
  str_text :: "string outcome"

definition plain_str :: "string \<Rightarrow> strobj" where
  "plain_str s =
     \<lparr>str_chars = s, str_len = Returns (length s),
      str_truncated = (\<lambda>n. Returns (slice_to s n @ ''...'')), str_text = Returns s\<rparr>"

text \<open>
  A local value is opaque to the formatter: it only asks whether it is callable and
  calls \<^verbatim>\<open>repr\<close> on it (a \<^verbatim>\<open>repr\<close> that returns something other than a string raises
  TypeError, an error). \<open>truthy\<close> is \<^verbatim>\<open>bool(value)\<close>, which only the delegate asks.
\<close>

record pyobject =
  callable :: bool
  truthy :: bool
  repr :: "strobj outcome"

record code_obj =
  co_filename :: string
  co_name :: string

record frame =
  f_code :: code_obj
  f_locals :: "(string, pyobject) dict"

text \<open>
  A traceback is the chain of its nodes, linked by \<^verbatim>\<open>tb_next\<close> and ended by \<^verbatim>\<open>None\<close>:
  the list of the nodes in chain order, \<open>[]\<close> for \<^verbatim>\<open>None\<close>.
\<close>

record traceback =
  tb_frame :: frame
  tb_lineno :: int

text \<open>The dictionary appended to \<^verbatim>\<open>user_frames\<close>, with its four keys as fields.\<close>

record frame_info =
  fi_filename :: string
  fi_lineno :: int
  fi_name :: string
  fi_locals :: "(string, pyobject) dict"

record formatter =
  width :: int
  max_frames :: int
  locals_max_string :: int

text \<open>
  The sink \<^verbatim>\<open>sio\<close> is the list of the strings written to it so far, in order. An
  exception that leaves a method is \<open>Raised\<close>, with the sink as it stood then.
\<close>

type_synonym sink = "string list"

definition sio_write :: "sink \<Rightarrow> string \<Rightarrow> sink" where
  "sio_write sio s = sio @ [s]"

datatype pyexc = ReprBaseException | DelegateRendererFailure

datatype written = Done sink | Raised pyexc sink

fun sink_of :: "written \<Rightarrow> sink" where
  "sink_of (Done sio) = sio"
| "sink_of (Raised e sio) = sio"

text \<open>
  The ANSI colour codes, which start with the escape character 0x1B. The two glyphs of
  the headers (U+2501 and U+25BA) lie beyond the characters modelled; each is spelled
  by the three bytes of its UTF-8 form.
\<close>

definition CYAN_BOLD :: string where
  "CYAN_BOLD = CHR 0x1B # ''[1;36m''"

definition YELLOW_BOLD :: string where
  "YELLOW_BOLD = CHR 0x1B # ''[1;33m''"

definition GREEN :: string where
  "GREEN = CHR 0x1B # ''[32m''"

definition RESET :: string where
  "RESET = CHR 0x1B # ''[0m''"

definition HEAVY_BAR :: string where
  "HEAVY_BAR = [CHR 0xE2, CHR 0x94, CHR 0x81]"

definition POINTER :: string where
  "POINTER = [CHR 0xE2, CHR 0x96, CHR 0xBA]"

definition section_header :: string where
  "section_header =
     NL @ CYAN_BOLD @ HEAVY_BAR @ HEAVY_BAR @ HEAVY_BAR @ '' Local variables in your code ''
        @ HEAVY_BAR @ HEAVY_BAR @ HEAVY_BAR @ RESET @ NL"

text \<open>The walk over the chain (the \<^verbatim>\<open>while\<close> loop), appending to \<^verbatim>\<open>user_frames\<close>.\<close>

fun walk_frames :: "environ \<Rightarrow> traceback list \<Rightarrow> frame_info list \<Rightarrow> frame_info list" where
  "walk_frames env [] user_frames = user_frames"
| "walk_frames env (current_tb # tb_next) user_frames =
     (let frame = tb_frame current_tb;
          filename = co_filename (f_code frame)
      in if is_user_code_frame env filename
         then walk_frames env tb_next
                (user_frames @ [\<lparr>fi_filename = filename, fi_lineno = tb_lineno current_tb,
                                  fi_name = co_name (f_code frame), fi_locals = f_locals frame\<rparr>])
         else walk_frames env tb_next user_frames)"

text \<open>The dictionary comprehension that builds \<^verbatim>\<open>filtered_locals\<close>.\<close>

definition filter_locals :: "(string, pyobject) dict \<Rightarrow> (string, pyobject) dict" where
  "filter_locals locals_dict =
     foldl (\<lambda>d (k, v).
              if \<not> startswith k ''_'' \<and> k \<notin> set [''self'', ''cls''] \<and> \<not> callable v
              then dict_set d k v else d)
       [] locals_dict"

text \<open>
  The body of the \<^verbatim>\<open>try\<close> up to the text that the f-string puts after the equals
  sign: \<^verbatim>\<open>repr\<close>, \<^verbatim>\<open>len\<close>, and the slice with the three dots when the length is over the
  limit. Whatever one of them raises leaves the \<^verbatim>\<open>try\<close> before anything is written.
\<close>

definition render_value :: "formatter \<Rightarrow> pyobject \<Rightarrow> string outcome" where
  "render_value self v =
     (case repr v of
        Returns repr_value \<Rightarrow>
          (case str_len repr_value of
             Returns n \<Rightarrow>
               if int n > locals_max_string self
               then str_truncated repr_value (locals_max_string self)
               else str_text repr_value
           | RaisesException \<Rightarrow> RaisesException
           | RaisesBaseException \<Rightarrow> RaisesBaseException)
      | RaisesException \<Rightarrow> RaisesException
      | RaisesBaseException \<Rightarrow> RaisesBaseException)"

definition print_var :: "formatter \<Rightarrow> string \<Rightarrow> pyobject \<Rightarrow> sink \<Rightarrow> written" where
  "print_var self name v sio =
     (case render_value self v of
        Returns text \<Rightarrow>
          Done (sio_write sio (''  '' @ GREEN @ name @ RESET @ '' = '' @ text @ NL))
      | RaisesException \<Rightarrow>
          Done (sio_write sio (''  '' @ GREEN @ name @ RESET @ '' = <repr failed>'' @ NL))
      | RaisesBaseException \<Rightarrow> Raised ReprBaseException sio)"

fun print_vars :: "formatter \<Rightarrow> (string, pyobject) dict \<Rightarrow> sink \<Rightarrow> written" where
  "print_vars self [] sio = Done sio"
| "print_vars self ((name, v) # rest) sio =
     (case print_var self name v sio of
        Done sio' \<Rightarrow> print_vars self rest sio'
      | Raised e sio' \<Rightarrow> Raised e sio')"

definition frame_header :: "frame_info \<Rightarrow> string" where
  "frame_header frame_info =
     (let short_filename = last3 (split CHR ''/'' (fi_filename frame_info));
          short_path = join ''/'' short_filename
      in NL @ YELLOW_BOLD @ POINTER @ '' '' @ short_path @ '':'' @ str_int (fi_lineno frame_info)
            @ '' in '' @ fi_name frame_info @ ''()'' @ RESET @ NL)"

text \<open>The body of the loop over \<^verbatim>\<open>user_frames\<close>, and the loop.\<close>

definition print_frame :: "formatter \<Rightarrow> frame_info \<Rightarrow> sink \<Rightarrow> written" where
  "print_frame self frame_info sio =
     (let sio1 = sio_write sio (frame_header frame_info);
          locals_dict = fi_locals frame_info
      in if locals_dict = [] then Done (sio_write sio1 (''  (no local variables)'' @ NL))
         else (let filtered_locals = filter_locals locals_dict
               in if filtered_locals = []
                  then Done (sio_write sio1 (''  (no relevant local variables)'' @ NL))
                  else print_vars self filtered_locals sio1))"

fun print_frames :: "formatter \<Rightarrow> frame_info list \<Rightarrow> sink \<Rightarrow> written" where
  "print_frames self [] sio = Done sio"
| "print_frames self (frame_info # rest) sio =
     (case print_frame self frame_info sio of
        Done sio' \<Rightarrow> print_frames self rest sio'
      | Raised e sio' \<Rightarrow> Raised e sio')"

definition print_user_code_locals :: "environ \<Rightarrow> formatter \<Rightarrow> sink \<Rightarrow> traceback list \<Rightarrow> written" where
  "print_user_code_locals env self sio tb =
     (let user_frames = walk_frames env tb []
      in if user_frames = [] then Done sio
         else print_frames self user_frames (sio_write sio section_header))"

text \<open>
  \<^verbatim>\<open>__call__\<close>. The base trace is rendered by the rich library, which is not part of
  the repository: \<open>render_base\<close> stands for building the \<^verbatim>\<open>Traceback\<close> with the width
  and max\_frames given and printing it to the temporary buffer. It returns the text or
  raises; what it raises is not caught.
\<close>

type_synonym ('t, 'v) exc_info = "'t \<times> 'v \<times> traceback list"

definition FocusedTracebackFormatter_call ::
  "(int \<Rightarrow> int \<Rightarrow> ('t, 'v) exc_info \<Rightarrow> pyexc + string) \<Rightarrow> environ \<Rightarrow> formatter \<Rightarrow> sink
     \<Rightarrow> ('t, 'v) exc_info \<Rightarrow> written" where
  "FocusedTracebackFormatter_call render_base env self sio exc_info =
     (case exc_info of (exc_type, exc_value, exc_tb) \<Rightarrow>
        (case render_base (width self) (max_frames self) (exc_type, exc_value, exc_tb) of
           Inl e \<Rightarrow> Raised e sio
         | Inr text \<Rightarrow> print_user_code_locals env self (sio_write sio text) exc_tb))"

text \<open>
  The specification's words about the formatter, for comparison with the code. A node of the
  chain is a user-code node when the classifier accepts its file name; \<open>frame_info_of\<close>
  is the snapshot taken of it. A frame is identified by its position in the chain (two
  frames of a recursion can agree in every field); \<open>focused_positions\<close> are the positions
  of the frames whose locals the focused section shows.
\<close>

definition is_user_node :: "environ \<Rightarrow> traceback \<Rightarrow> bool" where
  "is_user_node env t = is_user_code_frame env (co_filename (f_code (tb_frame t)))"

definition frame_info_of :: "traceback \<Rightarrow> frame_info" where
  "frame_info_of t =
     \<lparr>fi_filename = co_filename (f_code (tb_frame t)), fi_lineno = tb_lineno t,
      fi_name = co_name (f_code (tb_frame t)), fi_locals = f_locals (tb_frame t)\<rparr>"

definition focused_positions :: "environ \<Rightarrow> traceback list \<Rightarrow> nat list" where
  "focused_positions env tb = filter (\<lambda>i. is_user_node env (tb ! i)) [0..<length tb]"

text \<open>
  Modelled from the spec: the frames shown in the base trace. The base trace is rendered
  by the delegate (the \<^verbatim>\<open>Traceback\<close> class of the rich library, which is not among the
  repository's sources) "with the configured max\_frames limit", the "maximum number of
  frames to show". The delegate is modelled as that library selects the frames of the
  chain it is given. It walks the chain: a frame with a true local
  \<^verbatim>\<open>_rich_traceback_omit\<close> is left out, and after a frame with a true local
  \<^verbatim>\<open>_rich_traceback_guard\<close> the frames listed so far, that frame included, are dropped.
  Of the frames listed it then shows all when the limit is 0; a positive limit is raised
  to at least 4, and the listed frames with index from \<open>limit div 2\<close> up to the
  number of frames minus \<open>limit div 2\<close> are replaced by a note that counts them.
\<close>

definition marked :: "traceback \<Rightarrow> string \<Rightarrow> bool" where
  "marked t name =
     (case map_of (f_locals (tb_frame t)) name of None \<Rightarrow> False | Some v \<Rightarrow> truthy v)"

fun rich_extract :: "traceback list \<Rightarrow> nat \<Rightarrow> nat list \<Rightarrow> nat list" where
  "rich_extract [] i frames = frames"
| "rich_extract (t # rest) i frames =
     (if marked t ''_rich_traceback_omit'' then rich_extract rest (Suc i) frames
      else rich_extract rest (Suc i)
             (if marked t ''_rich_traceback_guard'' then [] else frames @ [i]))"

definition rich_max_frames :: "int \<Rightarrow> int" where
  "rich_max_frames limit = (if limit > 0 then max 4 limit else 0)"

definition shown_indices :: "int \<Rightarrow> nat \<Rightarrow> nat list" where
  "shown_indices m n =
     filter (\<lambda>j. \<not> (m \<noteq> 0 \<and> m div 2 \<le> int j \<and> int j < int n - m div 2)) [0..<n]"

definition base_trace_positions :: "int \<Rightarrow> traceback list \<Rightarrow> nat list" where
  "base_trace_positions limit tb =
     (let frames = rich_extract tb 0 []
      in map (\<lambda>j. frames ! j) (shown_indices (rich_max_frames limit) (length frames)))"

text \<open>
  A binding is removed by the filter when its name starts with an underscore, is
  \<^verbatim>\<open>self\<close> or \<^verbatim>\<open>cls\<close>, or its value is callable; the surviving bindings are the others,
  in their original order. A variable's line shows its name and a text: the
  text rendered for its value, or the placeholder when computing it raised an error.
\<close>

definition starts_with_underscore :: "string \<Rightarrow> bool" where
  "starts_with_underscore k = (k \<noteq> [] \<and> hd k = CHR ''_'')"

definition removed_by_filter :: "string \<times> pyobject \<Rightarrow> bool" where
  "removed_by_filter b =
     (starts_with_underscore (fst b) \<or> fst b = ''self'' \<or> fst b = ''cls'' \<or> callable (snd b))"

definition surviving :: "(string, pyobject) dict \<Rightarrow> (string, pyobject) dict" where
  "surviving locals_dict = filter (\<lambda>b. \<not> removed_by_filter b) locals_dict"

definition value_line :: "string \<Rightarrow> string \<Rightarrow> string" where
  "value_line name text = ''  '' @ GREEN @ name @ RESET @ '' = '' @ text @ NL"

definition ellipsis_marker :: string where
  "ellipsis_marker = ''...''"

definition placeholder :: string where
  "placeholder = ''<repr failed>''"

text \<open>The truncation law, on the characters of a representation.\<close>

definition truncate_repr :: "int \<Rightarrow> string \<Rightarrow> string" where
  "truncate_repr limit r =
     (if int (length r) > limit then slice_to r limit @ ellipsis_marker else r)"

definition shown_text :: "formatter \<Rightarrow> pyobject \<Rightarrow> string" where
  "shown_text self v =
     (case render_value self v of
        Returns text \<Rightarrow> text
      | RaisesException \<Rightarrow> placeholder
      | RaisesBaseException \<Rightarrow> [])"

definition no_locals_line :: string where
  "no_locals_line = ''  (no local variables)'' @ NL"

definition no_relevant_locals_line :: string where
  "no_relevant_locals_line = ''  (no relevant local variables)'' @ NL"

text \<open>
  The lines a frame contributes to the focused section when no representation lets an
  exception through: its header, then the marker or one line for each variable.
\<close>

definition frame_lines :: "formatter \<Rightarrow> frame_info \<Rightarrow> string list" where
  "frame_lines self fi =
     frame_header fi #
     (if fi_locals fi = [] then [no_locals_line]
      else if filter_locals (fi_locals fi) = [] then [no_relevant_locals_line]
      else map (\<lambda>b. value_line (fst b) (shown_text self (snd b))) (filter_locals (fi_locals fi)))"

text \<open>
  What the loop body writes for a frame, be it all of the frame's lines or, when a
  value lets an exception through, the lines up to there: the sink it leaves when it
  starts on an empty one. \<open>onto\<close> puts what was written behind an earlier sink.
\<close>

definition frame_output :: "formatter \<Rightarrow> frame_info \<Rightarrow> string list" where
  "frame_output self fi = sink_of (print_frame self fi [])"

fun onto :: "sink \<Rightarrow> written \<Rightarrow> written" where
  "onto sio (Done lines) = Done (sio @ lines)"
| "onto sio (Raised e lines) = Raised e (sio @ lines)"

section \<open>logger.py\<close>

datatype DevTracebackStyle = FOCUSED | RICH

fun style_value :: "DevTracebackStyle \<Rightarrow> string" where
  "style_value FOCUSED = ''focused''"
| "style_value RICH = ''rich''"

text \<open>The call \<^verbatim>\<open>DevTracebackStyle(style)\<close>: the member with that value, or ValueError.\<close>

datatype value_error = ValueError

definition DevTracebackStyle_of_value :: "string \<Rightarrow> value_error + DevTracebackStyle" where
  "DevTracebackStyle_of_value s =
     (case filter (\<lambda>m. style_value m = s) [FOCUSED, RICH] of
        [] \<Rightarrow> Inl ValueError
      | m # _ \<Rightarrow> Inr m)"

definition get_dev_traceback_style :: "environ \<Rightarrow> value_error + DevTracebackStyle" where
  "get_dev_traceback_style env =
     (let style = lower (getenv env ''DEV_TRACEBACK_STYLE'' ''focused'')
      in case DevTracebackStyle_of_value style of
           Inr s \<Rightarrow> Inr s
         | Inl ValueError \<Rightarrow> Inr FOCUSED)"

text \<open>
  The specification's words: a value is a casing of a word (of lower-case letters) when it has
  the word's letters in order, each in lower or in upper case.
\<close>

definition upper_letter :: "char \<Rightarrow> char" where
  "upper_letter c =
     (let n = (of_char c :: nat) in if 0x61 \<le> n \<and> n \<le> 0x7A then char_of (n - 32) else c)"

definition casing_of :: "string \<Rightarrow> string \<Rightarrow> bool" where
  "casing_of v w = list_all2 (\<lambda>a b. a = b \<or> a = upper_letter b) v w"

definition lower_letter :: "char \<Rightarrow> bool" where
  "lower_letter c = (0x61 \<le> (of_char c :: nat) \<and> (of_char c :: nat) \<le> 0x7A)"

text \<open>A value is a recognized style when it is a casing of the value of a member.\<close>

definition recognized_style :: "string \<Rightarrow> bool" where
  "recognized_style v = (\<exists>s. casing_of v (style_value s))"

text \<open>
  \<^verbatim>\<open>add_request_id\<close>. A field of the event dictionary holds a string or some other
  value. \<open>uuid4\<close> is the text of the identifier that \<^verbatim>\<open>uuid.uuid4()\<close> draws when it is
  called: the random source is an input of the model. The dictionary is changed in
  place and returned; the model returns the changed dictionary.
\<close>

datatype 'a pyval = PyStr string | PyOther 'a

definition add_request_id ::
  "'l \<Rightarrow> string \<Rightarrow> (string, 'a pyval) dict \<Rightarrow> string \<Rightarrow> (string, 'a pyval) dict" where
  "add_request_id logger method_name event_dict uuid4 =
     (if \<not> dict_contains event_dict ''request_id''
      then dict_set event_dict ''request_id'' (PyStr uuid4)
      else event_dict)"

text \<open>The value of a field, \<^verbatim>\<open>d.get(k)\<close>.\<close>

definition dict_get :: "('k, 'v) dict \<Rightarrow> 'k \<Rightarrow> 'v option" where
  "dict_get d k = map_of d k"

section \<open>Concrete inputs\<close>

definition example_formatter :: formatter where
  "example_formatter = \<lparr>width = 100, max_frames = 4, locals_max_string = 80\<rparr>"

definition short_formatter :: formatter where
  "short_formatter = \<lparr>width = 100, max_frames = 50, locals_max_string = 5\<rparr>"

text \<open>
  An instance of a subclass of \<^verbatim>\<open>str\<close> that overrides \<^verbatim>\<open>__len__\<close> to answer 0 and is
  otherwise the string of the ten digits.
\<close>

definition understating_str :: strobj where
  "understating_str = (plain_str ''0123456789'')\<lparr>str_len := Returns 0\<rparr>"

definition plain_value :: "string \<Rightarrow> pyobject" where
  "plain_value r = \<lparr>callable = False, truthy = True, repr = Returns (plain_str r)\<rparr>"

definition hostile_value :: pyobject where
  "hostile_value = \<lparr>callable = False, truthy = True, repr = RaisesException\<rparr>"

definition interrupting_value :: pyobject where
  "interrupting_value = \<lparr>callable = False, truthy = True, repr = RaisesBaseException\<rparr>"

definition function_value :: pyobject where
  "function_value =
     \<lparr>callable = True, truthy = True, repr = Returns (plain_str ''<function helper>'')\<rparr>"

text \<open>A frame of library code, and frames of a function under \<^verbatim>\<open>src/\<close>.\<close>

definition lib_node :: traceback where
  "lib_node =
     \<lparr>tb_frame = \<lparr>f_code = \<lparr>co_filename = ''/usr/lib/json/encoder.py'', co_name = ''default''\<rparr>,
                  f_locals = [(''o'', plain_value ''<object>'')]\<rparr>,
      tb_lineno = 180\<rparr>"

definition step_node :: "int \<Rightarrow> (string, pyobject) dict \<Rightarrow> traceback" where
  "step_node line locals_dict =
     \<lparr>tb_frame = \<lparr>f_code = \<lparr>co_filename = ''/srv/src/jobs.py'', co_name = ''step''\<rparr>,
                  f_locals = locals_dict\<rparr>,
      tb_lineno = line\<rparr>"

definition six_frames :: "traceback list" where
  "six_frames = map (\<lambda>line. step_node line [(''n'', plain_value ''7'')]) [11, 12, 13, 14, 15, 16]"

definition mixed_locals :: "(string, pyobject) dict" where
  "mixed_locals =
     [(''user_id'', plain_value ''42''), (''_tmp'', plain_value ''0''), (''self'', plain_value ''<Job>''),
      (''helper'', function_value), (''conn'', hostile_value), (''data'', plain_value ''{}'')]"

definition noise_locals :: "(string, pyobject) dict" where
  "noise_locals = [(''self'', plain_value ''<Job>''), (''helper'', function_value)]"

text \<open>
  Two chains of an exception raised in user code: one whose first frame holds a value
  that lets a KeyboardInterrupt out of \<^verbatim>\<open>repr\<close>, and one that passes through a library.
\<close>

definition two_user_frames :: "traceback list" where
  "two_user_frames =
     [step_node 11 [(''job'', interrupting_value)], step_node 12 [(''n'', plain_value ''7'')]]"

definition outer_inner :: "traceback list" where
  "outer_inner = [step_node 11 [(''n'', plain_value ''7'')], lib_node, step_node 13 []]"

text \<open>An environment that extends the patterns.\<close>

definition demo_environ :: environ where
  "demo_environ = [''LOGGER_USER_CODE_PATHS'' \<mapsto> '' backend-common , ,lib/'']"

section \<open>Results\<close>

lemma py_in_iff: "py_in p s \<longleftrightarrow> literal_substring p s"
proof (induction s)
  case Nil
  show ?case by (auto simp: literal_substring_def)
next
  case (Cons c cs)
  have "literal_substring p (c # cs) \<longleftrightarrow> startswith (c # cs) p \<or> literal_substring p cs"
  proof
    assume "literal_substring p (c # cs)"
    then obtain a b where ab: "c # cs = a @ p @ b" by (auto simp: literal_substring_def)
    show "startswith (c # cs) p \<or> literal_substring p cs"
    proof (cases a)
      case Nil
      with ab show ?thesis by (simp add: startswith_def)
    next
      case (Cons x a')
      with ab have "cs = a' @ p @ b" by simp
      then show ?thesis by (auto simp: literal_substring_def)
    qed
  next
    assume "startswith (c # cs) p \<or> literal_substring p cs"
    then show "literal_substring p (c # cs)"
    proof
      assume "startswith (c # cs) p"
      then have "c # cs = [] @ p @ drop (length p) (c # cs)"
        by (metis append_Nil append_take_drop_id startswith_def)
      then show ?thesis unfolding literal_substring_def by blast
    next
      assume "literal_substring p cs"
      then obtain a b where "cs = a @ p @ b" by (auto simp: literal_substring_def)
      then have "c # cs = (c # a) @ p @ b" by simp
      then show ?thesis unfolding literal_substring_def by blast
    qed
  qed
  with Cons show ?case by simp
qed

subsection \<open>Facts about the string functions\<close>

lemma split_not_Nil: "split sep s \<noteq> []"
  by (induction s) (auto split: list.splits)

lemma split_no_sep: "sep \<notin> set e \<Longrightarrow> split sep e = [e]"
  by (induction e) auto

lemma split_append_sep: "split sep (x @ sep # y) = split sep x @ split sep y"
proof (induction x)
  case Nil
  show ?case by simp
next
  case (Cons c x)
  obtain p ps where "split sep x = p # ps"
    using split_not_Nil [of sep x] by (cases "split sep x") auto
  with Cons show ?case by simp
qed

lemma split_pieces_no_sep: "e \<in> set (split sep s) \<Longrightarrow> sep \<notin> set e"
proof (induction s arbitrary: e)
  case Nil
  then show ?case by simp
next
  case (Cons c cs)
  obtain p ps where pps: "split sep cs = p # ps"
    using split_not_Nil [of sep cs] by (cases "split sep cs") auto
  show ?case
  proof (cases "c = sep")
    case True
    with Cons show ?thesis by auto
  next
    case False
    with Cons.prems pps have "e = c # p \<or> e \<in> set ps" by simp
    moreover have "sep \<notin> set p" using Cons.IH [of p] pps by simp
    moreover have "e \<in> set ps \<Longrightarrow> sep \<notin> set e" using Cons.IH [of e] pps by simp
    ultimately show ?thesis using False by auto
  qed
qed

lemma join_append:
  "xs \<noteq> [] \<Longrightarrow> ys \<noteq> [] \<Longrightarrow> join sep (xs @ ys) = join sep xs @ sep @ join sep ys"
proof (induction sep xs rule: join.induct)
  case (1 sep)
  then show ?case by simp
next
  case (2 sep p)
  then show ?case by (cases ys) auto
next
  case (3 sep p q ps)
  then show ?case by simp
qed

lemma join_split: "join [sep] (split sep s) = s"
proof (induction s)
  case Nil
  show ?case by simp
next
  case (Cons c cs)
  obtain p ps where pps: "split sep cs = p # ps"
    using split_not_Nil [of sep cs] by (cases "split sep cs") auto
  show ?case
  proof (cases "c = sep")
    case True
    with Cons pps show ?thesis by simp
  next
    case False
    with Cons pps show ?thesis by (cases ps) auto
  qed
qed

lemma set_split_entries: "set (split CHR '','' s) = comma_entries s"
proof (intro set_eqI iffI)
  fix e
  assume e: "e \<in> set (split CHR '','' s)"
  then obtain xs ys where xy: "split CHR '','' s = xs @ e # ys"
    by (auto dest: split_list)
  define a where "a = (if xs = [] then [] else join '','' xs @ '','')"
  define b where "b = (if ys = [] then [] else '','' @ join '','' ys)"
  have "join '','' (xs @ e # ys) = a @ e @ b"
  proof (cases "xs = []")
    case True
    then show ?thesis by (cases ys) (auto simp: a_def b_def)
  next
    case False
    then have "join '','' (xs @ e # ys) = join '','' xs @ '','' @ join '','' (e # ys)"
      by (simp add: join_append)
    then show ?thesis using False by (cases ys) (auto simp: a_def b_def)
  qed
  then have "s = a @ e @ b" using join_split [of "CHR '',''" s] xy by simp
  moreover have "a = [] \<or> last a = CHR '',''" by (simp add: a_def)
  moreover have "b = [] \<or> hd b = CHR '',''" by (simp add: b_def)
  moreover have "CHR '','' \<notin> set e" using e by (rule split_pieces_no_sep)
  ultimately show "e \<in> comma_entries s" unfolding comma_entries_def by blast
next
  fix e
  assume "e \<in> comma_entries s"
  then obtain a b where e: "CHR '','' \<notin> set e" and s: "s = a @ e @ b"
    and a: "a = [] \<or> last a = CHR '',''" and b: "b = [] \<or> hd b = CHR '',''"
    unfolding comma_entries_def by blast
  have tail: "e \<in> set (split CHR '','' (e @ b))"
  proof (cases b)
    case Nil
    with e show ?thesis by (simp add: split_no_sep)
  next
    case (Cons c b')
    with b have "e @ b = e @ CHR '','' # b'" by simp
    then show ?thesis using e by (simp add: split_append_sep split_no_sep)
  qed
  show "e \<in> set (split CHR '','' s)"
  proof (cases "a = []")
    case True
    with s tail show ?thesis by simp
  next
    case False
    with a have "a = butlast a @ [CHR '','']" by (metis append_butlast_last_id)
    then have "s = butlast a @ CHR '','' # (e @ b)" using s by (metis append_Cons append_Nil append_assoc)
    then show ?thesis using tail by (simp add: split_append_sep)
  qed
qed

lemma is_space_whitespace: "is_space c \<longleftrightarrow> c \<in> whitespace"
proof -
  have "c \<in> whitespace \<longleftrightarrow> (of_char c :: nat) \<in> of_char ` whitespace"
    by (simp add: inj_image_mem_iff inj_of_char)
  also have "\<dots> \<longleftrightarrow> is_space c"
    by (simp add: whitespace_def is_space_def)
  finally show ?thesis by simp
qed

lemma trimmed_form_alt:
  "trimmed_form e t \<longleftrightarrow>
     (\<exists>a b. e = a @ t @ b \<and> list_all is_space a \<and> list_all is_space b \<and>
            (t = [] \<or> (\<not> is_space (hd t) \<and> \<not> is_space (last t))))"
  by (auto simp: trimmed_form_def is_space_whitespace list_all_iff)

lemma dropWhile_keeps: "xs \<noteq> [] \<Longrightarrow> \<not> P (hd xs) \<Longrightarrow> dropWhile P xs = xs"
  by (cases xs) auto

lemma strip_is_trimmed_form: "trimmed_form e (strip e)"
proof -
  define a where "a = takeWhile is_space e"
  define d where "d = dropWhile is_space e"
  define k where "k = dropWhile is_space (rev d)"
  define b where "b = rev (takeWhile is_space (rev d))"
  have e: "e = a @ d" by (simp add: a_def d_def)
  have "rev d = takeWhile is_space (rev d) @ k" by (simp add: k_def)
  then have "rev (rev d) = rev (takeWhile is_space (rev d) @ k)" by simp
  then have d: "d = rev k @ b" by (simp add: b_def)
  have s: "strip e = rev k" by (simp add: strip_def k_def d_def)
  have sa: "list_all is_space a"
    unfolding a_def list_all_iff by (auto dest: set_takeWhileD)
  have sb: "list_all is_space b"
    unfolding b_def list_all_iff by (auto dest: set_takeWhileD)
  have ends: "\<not> is_space (hd (rev k)) \<and> \<not> is_space (last (rev k))" if "rev k \<noteq> []"
  proof
    from that have k: "k \<noteq> []" by simp
    then have "\<not> is_space (hd k)" unfolding k_def by (rule hd_dropWhile)
    then show "\<not> is_space (last (rev k))" using k by (simp add: last_rev)
    from that d have "d \<noteq> []" and "hd d = hd (rev k)" by simp_all
    moreover have "\<not> is_space (hd d)" using \<open>d \<noteq> []\<close> unfolding d_def by (rule hd_dropWhile)
    ultimately show "\<not> is_space (hd (rev k))" by simp
  qed
  have "e = a @ rev k @ b" using e d by simp
  with sa sb ends show ?thesis unfolding trimmed_form_alt s by blast
qed

lemma trimmed_form_is_strip: "trimmed_form e t \<Longrightarrow> t = strip e"
proof -
  assume "trimmed_form e t"
  then obtain a b where e: "e = a @ t @ b" and a: "list_all is_space a" and b: "list_all is_space b"
    and t: "t = [] \<or> (\<not> is_space (hd t) \<and> \<not> is_space (last t))"
    unfolding trimmed_form_alt by blast
  have da: "dropWhile is_space (a @ ys) = dropWhile is_space ys" for ys
    using a by (intro dropWhile_append2) (simp add: list_all_iff)
  have db: "dropWhile is_space (rev b @ ys) = dropWhile is_space ys" for ys
    using b by (intro dropWhile_append2) (simp add: list_all_iff)
  show ?thesis
  proof (cases "t = []")
    case True
    have "dropWhile is_space b = []" using b by (simp add: list_all_iff)
    moreover have "dropWhile is_space e = dropWhile is_space b"
      unfolding e True using da [of b] by simp
    ultimately have z: "dropWhile is_space e = []" by (simp only:)
    have "strip e = []" unfolding strip_def z by simp
    with True show ?thesis by simp
  next
    case False
    with t have h: "\<not> is_space (hd t)" and l: "\<not> is_space (last t)" by simp_all
    from False h have "dropWhile is_space (t @ b) = t @ b"
      by (intro dropWhile_keeps) simp_all
    with e da [of "t @ b"] have "dropWhile is_space e = t @ b" by simp
    moreover have "dropWhile is_space (rev t) = rev t"
      using False l by (intro dropWhile_keeps) (simp_all add: hd_rev)
    ultimately show ?thesis using db [of "rev t"] by (simp add: strip_def)
  qed
qed

lemma trimmed_form_iff: "trimmed_form e t \<longleftrightarrow> t = strip e"
  using strip_is_trimmed_form trimmed_form_is_strip by blast

lemma user_code_paths_active: "set (get_user_code_paths env) = active_patterns env"
proof (cases "env ''LOGGER_USER_CODE_PATHS''")
  case None
  then show ?thesis
    by (simp add: get_user_code_paths_def getenv_def active_patterns_def)
next
  case (Some s)
  have empty: "comma_entries [] = {[]}"
    using set_split_entries [of "[]"] by simp
  have strip_Nil: "strip [] = []" by (simp add: strip_def)
  show ?thesis
  proof (cases "s = []")
    case True
    with Some empty strip_Nil show ?thesis
      by (auto simp: get_user_code_paths_def getenv_def active_patterns_def trimmed_form_iff)
  next
    case False
    with Some show ?thesis
      by (auto simp: get_user_code_paths_def getenv_def active_patterns_def Let_def
          set_split_entries trimmed_form_iff)
  qed
qed

subsection \<open>Facts about the formatter\<close>

lemma walk_frames_eq:
  "walk_frames env tb acc = acc @ map frame_info_of (filter (is_user_node env) tb)"
  by (induction tb arbitrary: acc) (auto simp: Let_def is_user_node_def frame_info_of_def)

lemma filter_positions: "map (\<lambda>i. xs ! i) (filter (\<lambda>i. P (xs ! i)) [0..<length xs]) = filter P xs"
proof -
  have "filter P xs = filter P (map (\<lambda>i. xs ! i) [0..<length xs])"
    by (simp add: map_nth)
  also have "\<dots> = map (\<lambda>i. xs ! i) (filter (\<lambda>i. P (xs ! i)) [0..<length xs])"
    by (simp add: filter_map comp_def)
  finally show ?thesis by simp
qed

lemma startswith_underscore: "startswith k ''_'' \<longleftrightarrow> starts_with_underscore k"
  by (cases k) (auto simp: startswith_def starts_with_underscore_def)

lemma dict_set_fresh: "k \<notin> fst ` set d \<Longrightarrow> dict_set d k v = d @ [(k, v)]"
  by (induction d) auto

lemma dict_set_not_Nil: "dict_set d k v \<noteq> []"
  by (cases d) (auto split: if_splits)

lemma filter_locals_step:
  "(\<lambda>d (k, v). if \<not> startswith k ''_'' \<and> k \<notin> set [''self'', ''cls''] \<and> \<not> callable v
                 then dict_set d k v else d)
   = (\<lambda>d b. if removed_by_filter b then d else dict_set d (fst b) (snd b))"
  by (auto simp: fun_eq_iff removed_by_filter_def startswith_underscore)

lemma foldl_filter_locals:
  "distinct (map fst ls) \<Longrightarrow> fst ` set acc \<inter> fst ` set ls = {} \<Longrightarrow>
   foldl (\<lambda>d b. if removed_by_filter b then d else dict_set d (fst b) (snd b)) acc ls
     = acc @ surviving ls"
proof (induction ls arbitrary: acc)
  case Nil
  show ?case by (simp add: surviving_def)
next
  case (Cons b ls)
  show ?case
  proof (cases "removed_by_filter b")
    case True
    with Cons show ?thesis by (auto simp: surviving_def)
  next
    case False
    have fresh: "fst b \<notin> fst ` set acc" using Cons.prems(2) by auto
    have "fst ` set (acc @ [b]) \<inter> fst ` set ls = {}" using Cons.prems by auto
    with Cons.IH [of "acc @ [b]"] Cons.prems(1)
    have "foldl (\<lambda>d b. if removed_by_filter b then d else dict_set d (fst b) (snd b)) (acc @ [b]) ls
            = (acc @ [b]) @ surviving ls" by simp
    with False fresh show ?thesis by (simp add: dict_set_fresh surviving_def)
  qed
qed

lemma filter_locals_surviving: "distinct (map fst ls) \<Longrightarrow> filter_locals ls = surviving ls"
  using foldl_filter_locals [of ls "[]"] unfolding filter_locals_def filter_locals_step by simp

lemma foldl_filter_locals_Nil:
  "foldl (\<lambda>d b. if removed_by_filter b then d else dict_set d (fst b) (snd b)) acc ls = []
     \<longleftrightarrow> acc = [] \<and> surviving ls = []"
  by (induction ls arbitrary: acc) (auto simp: surviving_def dict_set_not_Nil)

lemma filter_locals_Nil: "filter_locals ls = [] \<longleftrightarrow> surviving ls = []"
  unfolding filter_locals_def filter_locals_step by (simp add: foldl_filter_locals_Nil)

lemma render_plain:
  "repr v = Returns (plain_str r) \<Longrightarrow>
   render_value self v = Returns (truncate_repr (locals_max_string self) r)"
  by (simp add: render_value_def plain_str_def truncate_repr_def ellipsis_marker_def)

lemma render_repr_error: "repr v = RaisesException \<Longrightarrow> render_value self v = RaisesException"
  by (simp add: render_value_def)

lemma render_plain_value:
  "render_value self (plain_value r) = Returns (truncate_repr (locals_max_string self) r)"
  by (simp add: render_plain plain_value_def)

lemma render_hostile_value: "render_value self hostile_value = RaisesException"
  by (simp add: render_repr_error hostile_value_def)

lemma render_function_value: "render_value self function_value \<noteq> RaisesBaseException"
  by (simp add: render_plain [where r = "''<function helper>''"] function_value_def)

lemma print_var_eq:
  "render_value self v \<noteq> RaisesBaseException \<Longrightarrow>
   print_var self name v sio = Done (sio @ [value_line name (shown_text self v)])"
  by (cases "render_value self v")
    (auto simp: print_var_def sio_write_def value_line_def shown_text_def placeholder_def)

lemma print_vars_eq:
  "\<forall>b \<in> set ls. render_value self (snd b) \<noteq> RaisesBaseException \<Longrightarrow>
   print_vars self ls sio = Done (sio @ map (\<lambda>b. value_line (fst b) (shown_text self (snd b))) ls)"
proof (induction ls arbitrary: sio)
  case Nil
  show ?case by simp
next
  case (Cons b ls)
  obtain name v where b: "b = (name, v)" by (cases b)
  with Cons.prems have "print_var self name v sio = Done (sio @ [value_line name (shown_text self v)])"
    by (simp add: print_var_eq)
  with Cons b show ?case by simp
qed

lemma focused_positions_set:
  "set (focused_positions env tb) = {i. i < length tb \<and> is_user_node env (tb ! i)}"
  by (auto simp: focused_positions_def)

lemma walk_frames_positions:
  "walk_frames env tb [] = map (\<lambda>i. frame_info_of (tb ! i)) (focused_positions env tb)"
proof -
  have "map frame_info_of (filter (is_user_node env) tb)
          = map frame_info_of (map (\<lambda>i. tb ! i) (focused_positions env tb))"
    by (simp add: focused_positions_def filter_positions)
  then show ?thesis by (simp add: walk_frames_eq comp_def)
qed

lemma src_path_user: "is_user_code_frame Map.empty ''/srv/src/jobs.py''"
  by code_simp

lemma lib_path_not_user: "\<not> is_user_code_frame Map.empty ''/usr/lib/json/encoder.py''"
  by code_simp

lemma step_node_user: "is_user_node Map.empty (step_node line locals_dict)"
  using src_path_user by (simp add: is_user_node_def step_node_def)

lemma lib_node_not_user: "\<not> is_user_node Map.empty lib_node"
  using lib_path_not_user by (simp add: is_user_node_def lib_node_def)

lemma step_node_header:
  "frame_header (frame_info_of (step_node 12 locals_dict))
     = NL @ YELLOW_BOLD @ POINTER @ '' srv/src/jobs.py:12 in step()'' @ RESET @ NL"
  by code_simp

lemma print_vars_sink:
  "\<exists>lines. sink_of (print_vars self ls sio) = sio @ lines \<and>
     (\<forall>s'. print_vars self ls sio = Done s' \<longrightarrow> length lines = length ls)"
proof (induction ls arbitrary: sio)
  case Nil
  show ?case by simp
next
  case (Cons b ls)
  obtain name v where b: "b = (name, v)" by (cases b)
  show ?case
  proof (cases "render_value self v = RaisesBaseException")
    case True
    then show ?thesis using b by (simp add: print_var_def)
  next
    case False
    then have pv: "print_var self name v sio = Done (sio @ [value_line name (shown_text self v)])"
      by (rule print_var_eq)
    from Cons [of "sio @ [value_line name (shown_text self v)]"]
    obtain lines where l: "sink_of (print_vars self ls (sio @ [value_line name (shown_text self v)]))
          = (sio @ [value_line name (shown_text self v)]) @ lines"
       "\<forall>s'. print_vars self ls (sio @ [value_line name (shown_text self v)]) = Done s'
           \<longrightarrow> length lines = length ls" by blast
    show ?thesis
      apply (rule exI [of _ "value_line name (shown_text self v) # lines"])
      using l pv b by simp
  qed
qed

lemma print_frame_sink:
  "\<exists>lines. sink_of (print_frame self fi sio) = sio @ frame_header fi # lines \<and>
     (\<forall>s'. print_frame self fi sio = Done s' \<longrightarrow> lines \<noteq> [])"
proof (cases "fi_locals fi = [] \<or> filter_locals (fi_locals fi) = []")
  case True
  then show ?thesis by (auto simp: print_frame_def sio_write_def Let_def)
next
  case False
  obtain lines where l: "sink_of (print_vars self (filter_locals (fi_locals fi)) (sio @ [frame_header fi]))
       = (sio @ [frame_header fi]) @ lines"
     "\<forall>s'. print_vars self (filter_locals (fi_locals fi)) (sio @ [frame_header fi]) = Done s'
        \<longrightarrow> length lines = length (filter_locals (fi_locals fi))"
    using print_vars_sink by blast
  from l(2) False have "\<forall>s'. print_vars self (filter_locals (fi_locals fi)) (sio @ [frame_header fi]) = Done s'
        \<longrightarrow> lines \<noteq> []" by auto
  with l(1) False show ?thesis by (auto simp: print_frame_def sio_write_def Let_def)
qed

lemma markers_distinct: "no_locals_line \<noteq> no_relevant_locals_line"
  by (simp add: no_locals_line_def no_relevant_locals_line_def)

lemma print_frame_no_locals:
  "fi_locals fi = [] \<Longrightarrow> print_frame self fi sio = Done (sio @ [frame_header fi, no_locals_line])"
  by (simp add: print_frame_def sio_write_def no_locals_line_def)

lemma print_frame_all_removed:
  "fi_locals fi \<noteq> [] \<Longrightarrow> \<forall>b \<in> set (fi_locals fi). removed_by_filter b \<Longrightarrow>
   print_frame self fi sio = Done (sio @ [frame_header fi, no_relevant_locals_line])"
proof -
  assume a: "fi_locals fi \<noteq> []" "\<forall>b \<in> set (fi_locals fi). removed_by_filter b"
  then have "surviving (fi_locals fi) = []" by (simp add: surviving_def filter_empty_conv)
  then have "filter_locals (fi_locals fi) = []" by (simp add: filter_locals_Nil)
  with a show ?thesis by (simp add: print_frame_def sio_write_def no_relevant_locals_line_def)
qed

lemma print_frames_headers:
  "print_frames self fis sio = Done sio' \<Longrightarrow>
   set sio \<subseteq> set sio' \<and> (\<forall>fi \<in> set fis. frame_header fi \<in> set sio')"
proof (induction fis arbitrary: sio)
  case Nil
  then show ?case by simp
next
  case (Cons fi fis)
  then obtain s1 where s1: "print_frame self fi sio = Done s1" "print_frames self fis s1 = Done sio'"
    by (auto split: written.splits)
  obtain lines where "sink_of (print_frame self fi sio) = sio @ frame_header fi # lines"
    using print_frame_sink by blast
  with s1 have "s1 = sio @ frame_header fi # lines" by simp
  moreover from Cons.IH [OF s1(2)] have "set s1 \<subseteq> set sio'" "\<forall>fi \<in> set fis. frame_header fi \<in> set sio'"
    by auto
  ultimately show ?case by auto
qed

lemma set_filter_locals: "set (filter_locals ls) \<subseteq> set ls"
proof -
  have "set (foldl (\<lambda>d b. if removed_by_filter b then d else dict_set d (fst b) (snd b)) acc ls)
          \<subseteq> set acc \<union> set ls" for acc
  proof (induction ls arbitrary: acc)
    case Nil
    show ?case by simp
  next
    case (Cons b ls)
    have ds: "set (dict_set d k v) \<subseteq> insert (k, v) (set d)" for d :: "(string, pyobject) dict" and k v
      by (induction d) (auto split: if_splits)
    show ?case
    proof (cases "removed_by_filter b")
      case True
      with Cons [of acc] show ?thesis by auto
    next
      case False
      with Cons [of "dict_set acc (fst b) (snd b)"] ds [of acc "fst b" "snd b"]
      show ?thesis by auto
    qed
  qed
  from this [of "[]"] show ?thesis unfolding filter_locals_def filter_locals_step by simp
qed

lemma print_frame_eq:
  "\<forall>b \<in> set (filter_locals (fi_locals fi)). render_value self (snd b) \<noteq> RaisesBaseException \<Longrightarrow>
   print_frame self fi sio = Done (sio @ frame_lines self fi)"
proof -
  assume "\<forall>b \<in> set (filter_locals (fi_locals fi)). render_value self (snd b) \<noteq> RaisesBaseException"
  then have "print_vars self (filter_locals (fi_locals fi)) s
     = Done (s @ map (\<lambda>b. value_line (fst b) (shown_text self (snd b))) (filter_locals (fi_locals fi)))" for s
    by (rule print_vars_eq)
  then show ?thesis
    by (simp add: print_frame_def frame_lines_def sio_write_def Let_def no_locals_line_def
        no_relevant_locals_line_def)
qed

lemma print_frames_eq:
  "\<forall>fi \<in> set fis. \<forall>b \<in> set (fi_locals fi). render_value self (snd b) \<noteq> RaisesBaseException \<Longrightarrow>
   print_frames self fis sio = Done (sio @ concat (map (frame_lines self) fis))"
proof (induction fis arbitrary: sio)
  case Nil
  show ?case by simp
next
  case (Cons fi fis)
  then have "\<forall>b \<in> set (filter_locals (fi_locals fi)). render_value self (snd b) \<noteq> RaisesBaseException"
    using set_filter_locals [of "fi_locals fi"] by auto
  then have "print_frame self fi sio = Done (sio @ frame_lines self fi)"
    by (rule print_frame_eq)
  with Cons show ?case by simp
qed

lemma print_user_code_locals_eq:
  "\<forall>t \<in> set tb. \<forall>b \<in> set (f_locals (tb_frame t)). render_value self (snd b) \<noteq> RaisesBaseException \<Longrightarrow>
   print_user_code_locals env self sio tb
     = Done (sio @ (if filter (is_user_node env) tb = [] then []
                    else section_header #
                         concat (map (frame_lines self \<circ> frame_info_of) (filter (is_user_node env) tb))))"
proof -
  assume a: "\<forall>t \<in> set tb. \<forall>b \<in> set (f_locals (tb_frame t)). render_value self (snd b) \<noteq> RaisesBaseException"
  have "\<forall>fi \<in> set (map frame_info_of (filter (is_user_node env) tb)).
          \<forall>b \<in> set (fi_locals fi). render_value self (snd b) \<noteq> RaisesBaseException"
    using a by (auto simp: frame_info_of_def)
  then have "print_frames self (map frame_info_of (filter (is_user_node env) tb)) s
     = Done (s @ concat (map (frame_lines self) (map frame_info_of (filter (is_user_node env) tb))))" for s
    by (rule print_frames_eq)
  then show ?thesis
    by (simp add: print_user_code_locals_def walk_frames_eq sio_write_def comp_def)
qed

lemma user_frame_headers_written:
  "print_user_code_locals env self sio tb = Done sio' \<Longrightarrow> t \<in> set tb \<Longrightarrow> is_user_node env t \<Longrightarrow>
   frame_header (frame_info_of t) \<in> set sio'"
proof -
  assume d: "print_user_code_locals env self sio tb = Done sio'" and t: "t \<in> set tb" "is_user_node env t"
  from t have m: "frame_info_of t \<in> set (walk_frames env tb [])" by (simp add: walk_frames_eq)
  then have "walk_frames env tb [] \<noteq> []" by auto
  with d have "print_frames self (walk_frames env tb []) (sio_write sio section_header) = Done sio'"
    by (simp add: print_user_code_locals_def Let_def)
  from print_frames_headers [OF this] m show "frame_header (frame_info_of t) \<in> set sio'" by blast
qed

lemma six_frames_no_interrupt:
  "\<forall>t \<in> set six_frames. \<forall>b \<in> set (f_locals (tb_frame t)). render_value self (snd b) \<noteq> RaisesBaseException"
  by (simp add: six_frames_def step_node_def render_plain_value)

lemma demo_paths:
  "get_user_code_paths demo_environ
     = [''dcc_backend_common'', ''src/'', ''app/'', ''tests/'', ''backend-common'', ''lib/'']"
  by code_simp

subsection \<open>C4: the match rule of the path classifier\<close>

text \<open>
  C4. For every path and every environment, \<open>is_user_code_frame\<close> holds exactly when
  some pattern of the active set is a literal (case-sensitive) substring of the path,
  where the active set is the four defaults extended by the trimmed, non-empty entries
  of the comma-separated variable LOGGER\_USER\_CODE\_PATHS.
\<close>

theorem is_user_code_frame_iff_active_pattern:
  "is_user_code_frame env file_path \<longleftrightarrow>
     (\<exists>p. p \<in> active_patterns env \<and> literal_substring p file_path)"
  by (auto simp: is_user_code_frame_def list_ex_iff py_in_iff user_code_paths_active [symmetric])

theorem is_user_code_frame_iff_active_pattern_witness:
  "is_user_code_frame demo_environ ''/home/u/backend-common/x.py'' \<and>
   (\<exists>p. p \<in> active_patterns demo_environ \<and> literal_substring p ''/home/u/backend-common/x.py'') \<and>
   ''backend-common'' \<in> active_patterns demo_environ \<and>
   literal_substring ''backend-common'' ''/home/u/backend-common/x.py'' \<and>
   '' backend-common '' \<notin> active_patterns demo_environ \<and>
   \<not> literal_substring '' backend-common '' ''/home/u/backend-common/x.py'' \<and>
   \<not> is_user_code_frame Map.empty ''/home/u/backend-common/x.py'' \<and>
   \<not> is_user_code_frame demo_environ ''/home/u/BACKEND-COMMON/x.py''"
proof -
  have a: "is_user_code_frame demo_environ ''/home/u/backend-common/x.py''" by code_simp
  have b: "\<not> is_user_code_frame Map.empty ''/home/u/backend-common/x.py''" by code_simp
  have c: "\<not> is_user_code_frame demo_environ ''/home/u/BACKEND-COMMON/x.py''" by code_simp
  have p: "active_patterns demo_environ
             = set [''dcc_backend_common'', ''src/'', ''app/'', ''tests/'', ''backend-common'', ''lib/'']"
    using user_code_paths_active [of demo_environ] demo_paths by simp
  have d: "''backend-common'' \<in> active_patterns demo_environ"
    and e: "'' backend-common '' \<notin> active_patterns demo_environ"
    unfolding p by simp_all
  have "py_in ''backend-common'' ''/home/u/backend-common/x.py''" by code_simp
  then have f: "literal_substring ''backend-common'' ''/home/u/backend-common/x.py''"
    by (simp add: py_in_iff)
  have "\<not> py_in '' backend-common '' ''/home/u/backend-common/x.py''" by code_simp
  then have g: "\<not> literal_substring '' backend-common '' ''/home/u/backend-common/x.py''"
    by (simp add: py_in_iff)
  from a is_user_code_frame_iff_active_pattern [of demo_environ "''/home/u/backend-common/x.py''"]
  have h: "\<exists>p. p \<in> active_patterns demo_environ \<and> literal_substring p ''/home/u/backend-common/x.py''"
    by simp
  from a b c d e f g h show ?thesis by blast
qed

subsection \<open>C3: truncation of a representation\<close>

text \<open>
  C3, as the code has it. A variable whose \<^verbatim>\<open>repr\<close> returns a plain \<^verbatim>\<open>str\<close> longer than
  \<open>locals_max_string\<close> (a limit that is not negative, as the configuration's data model
  has it) is written with a value text of exactly that many characters plus the length
  of the ellipsis marker: the first \<open>locals_max_string\<close> characters and the marker. A
  plain \<^verbatim>\<open>str\<close> within the limit is written unchanged.
\<close>

theorem truncation_law:
  "repr v = Returns (plain_str r) \<Longrightarrow>
   print_var self name v sio
     = Done (sio @ [value_line name (truncate_repr (locals_max_string self) r)]) \<and>
   (0 \<le> locals_max_string self \<and> locals_max_string self < int (length r)
      \<longrightarrow> truncate_repr (locals_max_string self) r
            = take (nat (locals_max_string self)) r @ ellipsis_marker \<and>
          int (length (truncate_repr (locals_max_string self) r))
            = locals_max_string self + int (length ellipsis_marker)) \<and>
   (int (length r) \<le> locals_max_string self
      \<longrightarrow> truncate_repr (locals_max_string self) r = r)"
proof (intro conjI impI)
  assume "repr v = Returns (plain_str r)"
  then have "render_value self v = Returns (truncate_repr (locals_max_string self) r)"
    by (rule render_plain)
  then show "print_var self name v sio
     = Done (sio @ [value_line name (truncate_repr (locals_max_string self) r)])"
    by (simp add: print_var_def sio_write_def value_line_def)
next
  assume a: "0 \<le> locals_max_string self \<and> locals_max_string self < int (length r)"
  then show "truncate_repr (locals_max_string self) r
            = take (nat (locals_max_string self)) r @ ellipsis_marker"
    by (simp add: truncate_repr_def slice_to_def)
  moreover from a have "min (length r) (nat (locals_max_string self)) = nat (locals_max_string self)"
    by linarith
  ultimately show "int (length (truncate_repr (locals_max_string self) r))
            = locals_max_string self + int (length ellipsis_marker)"
    using a by simp
next
  assume "int (length r) \<le> locals_max_string self"
  then show "truncate_repr (locals_max_string self) r = r"
    by (simp add: truncate_repr_def)
qed

theorem truncation_law_witness:
  "print_var short_formatter ''x'' (plain_value ''0123456789'') []
     = Done [value_line ''x'' ''01234...''] \<and>
   int (length (truncate_repr 5 ''0123456789'')) = 5 + int (length ellipsis_marker) \<and>
   print_var short_formatter ''y'' (plain_value ''[1]'') [] = Done [value_line ''y'' ''[1]'']"
proof -
  have l: "locals_max_string short_formatter = 5" by (simp add: short_formatter_def)
  note a = truncation_law [where v = "plain_value ''0123456789''" and r = "''0123456789''"
      and name = "''x''" and sio = "[]" and self = short_formatter]
  note b = truncation_law [where v = "plain_value ''[1]''" and r = "''[1]''"
      and name = "''y''" and sio = "[]" and self = short_formatter]
  have ra: "repr (plain_value ''0123456789'') = Returns (plain_str ''0123456789'')"
    and rb: "repr (plain_value ''[1]'') = Returns (plain_str ''[1]'')"
    by (simp_all add: plain_value_def)
  from a [OF ra] have "truncate_repr 5 ''0123456789'' = ''01234...''"
    and 2: "int (length (truncate_repr 5 ''0123456789'')) = 5 + int (length ellipsis_marker)"
    by (simp_all add: l ellipsis_marker_def)
  with a [OF ra] have 1: "print_var short_formatter ''x'' (plain_value ''0123456789'') []
     = Done [value_line ''x'' ''01234...'']"
    by (simp add: l)
  from b [OF rb] have 3: "print_var short_formatter ''y'' (plain_value ''[1]'') []
     = Done [value_line ''y'' ''[1]'']"
    by (simp add: l)
  from 1 2 3 show ?thesis by blast
qed

text \<open>
  C3 as it is stated fails for a representation that is an instance of a subclass of
  \<^verbatim>\<open>str\<close>: the formatter asks the object itself for its length. With a limit of 5, a
  representation of ten characters whose \<^verbatim>\<open>__len__\<close> answers 0 is written in full.
\<close>

theorem truncation_law_fails_for_subclass:
  "locals_max_string short_formatter < int (length (str_chars understating_str)) \<and>
   print_var short_formatter ''x'' \<lparr>callable = False, truthy = True, repr = Returns understating_str\<rparr> []
     = Done [value_line ''x'' ''0123456789''] \<and>
   int (length ''0123456789'') \<noteq> locals_max_string short_formatter + int (length ellipsis_marker)"
  by (simp add: short_formatter_def understating_str_def plain_str_def print_var_def
      render_value_def sio_write_def value_line_def ellipsis_marker_def)

text \<open>A negative limit is outside the data model; there the slice counts from the end.\<close>

lemma truncation_negative_limit: "truncate_repr (- 1) ''0123456789'' = ''012345678...''"
  by (simp add: truncate_repr_def slice_to_def ellipsis_marker_def)

subsection \<open>C6: no user-code frame, no focused section\<close>

text \<open>
  C6. When no frame of the traceback is classified as user code, the formatter writes
  nothing but the base trace that the delegate rendered: \<open>print_user_code_locals\<close>
  leaves the sink as it is, so neither the section header nor any line of a frame is
  written (and a delegate that raises leaves the sink untouched).
\<close>

theorem no_user_frames_no_focused_section:
  "\<forall>t \<in> set exc_tb. \<not> is_user_node env t \<Longrightarrow>
   print_user_code_locals env self sio exc_tb = Done sio \<and>
   FocusedTracebackFormatter_call render_base env self sio (exc_type, exc_value, exc_tb)
     = (case render_base (width self) (max_frames self) (exc_type, exc_value, exc_tb) of
          Inl e \<Rightarrow> Raised e sio
        | Inr text \<Rightarrow> Done (sio @ [text]))"
proof -
  assume "\<forall>t \<in> set exc_tb. \<not> is_user_node env t"
  then have "filter (is_user_node env) exc_tb = []" by (simp add: filter_empty_conv)
  then have "print_user_code_locals env self s exc_tb = Done s" for s
    by (simp add: print_user_code_locals_def walk_frames_eq)
  then show ?thesis
    by (simp add: FocusedTracebackFormatter_call_def sio_write_def split: sum.splits)
qed

theorem no_user_frames_no_focused_section_witness:
  "\<not> is_user_node Map.empty lib_node \<and>
   print_user_code_locals Map.empty example_formatter [] [lib_node] = Done [] \<and>
   FocusedTracebackFormatter_call (\<lambda>w m e. Inr ''base trace'') Map.empty example_formatter []
       (''TypeError'', ''not serializable'', [lib_node])
     = Done [''base trace'']"
  using lib_node_not_user
    no_user_frames_no_focused_section [where exc_tb = "[lib_node]" and env = Map.empty
      and self = example_formatter and sio = "[]"
      and render_base = "\<lambda>w m e. Inr ''base trace''" and exc_type = "''TypeError''"
      and exc_value = "''not serializable''"]
  by simp

subsection \<open>C8 and C10: the traceback style\<close>

lemma lower_char_lower_letter: "lower_letter c \<Longrightarrow> lower_char c = c"
  by (simp add: lower_char_def lower_letter_def Let_def)

lemma lower_char_upper_letter: "lower_letter c \<Longrightarrow> lower_char (upper_letter c) = c"
proof -
  assume l: "lower_letter c"
  define n where "n = (of_char c :: nat)"
  have n: "0x61 \<le> n" "n \<le> 0x7A" using l by (simp_all add: lower_letter_def n_def)
  have u: "upper_letter c = char_of (n - 32)" using n by (simp add: upper_letter_def n_def Let_def)
  have r: "0x41 \<le> n - 32 \<and> n - 32 \<le> 0x5A" using n by arith
  have "(of_char (char_of (n - 32) :: char) :: nat) = n - 32" using n by simp
  then have "lower_char (char_of (n - 32)) = char_of (n - 32 + 32)"
    using r by (simp add: lower_char_def Let_def)
  also have "\<dots> = char_of n" using n by simp
  also have "\<dots> = c" by (simp add: n_def)
  finally show ?thesis using u by simp
qed

lemma lower_casing:
  "casing_of v w \<Longrightarrow> \<forall>b \<in> set w. lower_letter b \<Longrightarrow> lower v = w"
  unfolding casing_of_def lower_def
  by (induction v w rule: list_all2_induct)
     (auto simp: lower_char_lower_letter lower_char_upper_letter)

lemma lower_char_pre:
  "lower_letter b \<Longrightarrow> lower_char c = b \<Longrightarrow> c = b \<or> c = upper_letter b"
proof -
  assume l: "lower_letter b" and e: "lower_char c = b"
  define n where "n = (of_char c :: nat)"
  define k where "k = (of_char b :: nat)"
  have k: "0x61 \<le> k" "k \<le> 0x7A" using l by (simp_all add: lower_letter_def k_def)
  show ?thesis
  proof (cases "(0x41 \<le> n \<and> n \<le> 0x5A) \<or> (0xC0 \<le> n \<and> n \<le> 0xDE \<and> n \<noteq> 0xD7)")
    case False
    then have "lower_char c = c" unfolding lower_char_def n_def Let_def by (simp only: if_False)
    with e show ?thesis by simp
  next
    case True
    then have lc: "lower_char c = char_of (n + 32)" by (simp add: lower_char_def n_def Let_def)
    from True have "n + 32 < 256" by auto
    then have "(of_char (char_of (n + 32) :: char) :: nat) = n + 32" by simp
    with lc e have kn: "k = n + 32" by (simp add: k_def)
    have "c = char_of n" by (simp add: n_def)
    with kn have "c = char_of (k - 32)" by simp
    then have "c = upper_letter b" using k by (simp add: upper_letter_def k_def Let_def)
    then show ?thesis by simp
  qed
qed

lemma casing_lower:
  "lower v = w \<Longrightarrow> \<forall>b \<in> set w. lower_letter b \<Longrightarrow> casing_of v w"
proof (induction v arbitrary: w)
  case Nil
  then show ?case by (simp add: casing_of_def lower_def)
next
  case (Cons c v)
  then obtain b w' where w: "w = b # w'" "lower_char c = b" "lower v = w'"
    by (auto simp: lower_def)
  with Cons have "casing_of v w'" by simp
  moreover have "c = b \<or> c = upper_letter b" using lower_char_pre [of b c] w Cons.prems by simp
  ultimately show ?case using w by (simp add: casing_of_def)
qed

lemma style_letters: "\<forall>b \<in> set (style_value s). lower_letter b"
  by (cases s) (simp_all add: lower_letter_def)

lemma style_of_value: "DevTracebackStyle_of_value (style_value s) = Inr s"
  by (cases s) (simp_all add: DevTracebackStyle_of_value_def)

lemma style_of_other:
  "s \<noteq> ''focused'' \<Longrightarrow> s \<noteq> ''rich'' \<Longrightarrow> DevTracebackStyle_of_value s = Inl ValueError"
  by (auto simp: DevTracebackStyle_of_value_def)

lemma plain_not_recognized: "\<not> recognized_style ''plain''"
proof -
  have "\<not> casing_of ''plain'' (style_value s)" for s
    by (cases s) (simp_all add: casing_of_def)
  then show ?thesis by (simp add: recognized_style_def)
qed

lemma lower_eq_style: "lower v = style_value s \<longleftrightarrow> casing_of v (style_value s)"
  using lower_casing [of v "style_value s"] casing_lower [of v "style_value s"] style_letters [of s]
  by blast

lemma style_selected:
  "get_dev_traceback_style env
     = Inr (if lower (getenv env ''DEV_TRACEBACK_STYLE'' ''focused'') = ''rich'' then RICH else FOCUSED)"
  by (auto simp: get_dev_traceback_style_def DevTracebackStyle_of_value_def Let_def)

text \<open>
  C8. Style selection never raises: it returns a style for every environment. For a
  value of DEV\_TRACEBACK\_STYLE that is not a recognized style (not a casing of
  \<^verbatim>\<open>focused\<close> or \<^verbatim>\<open>rich\<close>) it returns FOCUSED; so it does for every value that is not
  a casing of \<^verbatim>\<open>rich\<close>, and when the variable is not set.
\<close>

theorem unrecognized_style_falls_back:
  "(\<exists>s. get_dev_traceback_style env = Inr s) \<and>
   (env ''DEV_TRACEBACK_STYLE'' = Some v \<and> \<not> recognized_style v
      \<longrightarrow> get_dev_traceback_style env = Inr FOCUSED) \<and>
   (env ''DEV_TRACEBACK_STYLE'' = Some v \<and> \<not> casing_of v ''rich''
      \<longrightarrow> get_dev_traceback_style env = Inr FOCUSED) \<and>
   (env ''DEV_TRACEBACK_STYLE'' = None \<longrightarrow> get_dev_traceback_style env = Inr FOCUSED)"
proof (intro conjI impI)
  show "\<exists>s. get_dev_traceback_style env = Inr s"
    by (simp add: style_selected)
next
  assume a: "env ''DEV_TRACEBACK_STYLE'' = Some v \<and> \<not> casing_of v ''rich''"
  then have "lower v \<noteq> ''rich''" using lower_eq_style [of v RICH] by simp
  with a show "get_dev_traceback_style env = Inr FOCUSED"
    by (simp add: style_selected getenv_def)
next
  assume a: "env ''DEV_TRACEBACK_STYLE'' = Some v \<and> \<not> recognized_style v"
  then have "\<not> casing_of v (style_value RICH)" unfolding recognized_style_def by blast
  then have "lower v \<noteq> ''rich''" using lower_eq_style [of v RICH] by simp
  with a show "get_dev_traceback_style env = Inr FOCUSED"
    by (simp add: style_selected getenv_def)
next
  assume "env ''DEV_TRACEBACK_STYLE'' = None"
  then show "get_dev_traceback_style env = Inr FOCUSED"
    by (simp add: style_selected getenv_def lower_def lower_char_def)
qed

theorem unrecognized_style_falls_back_witness:
  "\<not> recognized_style ''plain'' \<and>
   get_dev_traceback_style [''DEV_TRACEBACK_STYLE'' \<mapsto> ''plain''] = Inr FOCUSED"
  using plain_not_recognized
    unrecognized_style_falls_back [of "[''DEV_TRACEBACK_STYLE'' \<mapsto> ''plain'']" "''plain''"]
  by simp

text \<open>
  C10. The value of DEV\_TRACEBACK\_STYLE is matched without regard to case: every
  casing of \<^verbatim>\<open>focused\<close> selects FOCUSED and every casing of \<^verbatim>\<open>rich\<close> selects RICH.
\<close>

theorem style_matched_ignoring_case:
  "env ''DEV_TRACEBACK_STYLE'' = Some v \<Longrightarrow> casing_of v (style_value s) \<Longrightarrow>
   get_dev_traceback_style env = Inr s"
  using lower_casing [of v "style_value s"] style_letters [of s]
  by (simp add: get_dev_traceback_style_def getenv_def style_of_value)

theorem style_matched_ignoring_case_witness:
  "casing_of ''RICH'' (style_value RICH) \<and>
   get_dev_traceback_style [''DEV_TRACEBACK_STYLE'' \<mapsto> ''RICH''] = Inr RICH \<and>
   casing_of ''Focused'' (style_value FOCUSED) \<and>
   get_dev_traceback_style [''DEV_TRACEBACK_STYLE'' \<mapsto> ''Focused''] = Inr FOCUSED"
proof -
  have r: "casing_of ''RICH'' (style_value RICH)" by code_simp
  have f: "casing_of ''Focused'' (style_value FOCUSED)" by code_simp
  show ?thesis
    using r f
      style_matched_ignoring_case [of "[''DEV_TRACEBACK_STYLE'' \<mapsto> ''RICH'']" "''RICH''" RICH]
      style_matched_ignoring_case [of "[''DEV_TRACEBACK_STYLE'' \<mapsto> ''Focused'']" "''Focused''" FOCUSED]
    by simp
qed

subsection \<open>C9: the request id\<close>

lemma dict_get_dict_set_other: "k \<noteq> k' \<Longrightarrow> dict_get (dict_set d k' v) k = dict_get d k"
  by (induction d) (auto simp: dict_get_def)

text \<open>
  C9. \<open>add_request_id\<close> returns the event dictionary unchanged when it has a
  \<^verbatim>\<open>request_id\<close> field; otherwise it returns it with one field added at the end,
  \<^verbatim>\<open>request_id\<close>, holding the generated identifier. Either way every other field keeps
  its value.
\<close>

theorem add_request_id_frame:
  "(dict_contains event_dict ''request_id''
      \<longrightarrow> add_request_id logger method_name event_dict uuid4 = event_dict) \<and>
   (\<not> dict_contains event_dict ''request_id''
      \<longrightarrow> add_request_id logger method_name event_dict uuid4
            = event_dict @ [(''request_id'', PyStr uuid4)]) \<and>
   (\<forall>k. k \<noteq> ''request_id''
      \<longrightarrow> dict_get (add_request_id logger method_name event_dict uuid4) k = dict_get event_dict k)"
proof (intro conjI allI impI)
  assume "dict_contains event_dict ''request_id''"
  then show "add_request_id logger method_name event_dict uuid4 = event_dict"
    by (simp add: add_request_id_def)
next
  assume "\<not> dict_contains event_dict ''request_id''"
  then show "add_request_id logger method_name event_dict uuid4
               = event_dict @ [(''request_id'', PyStr uuid4)]"
    by (simp add: add_request_id_def dict_contains_def dict_set_fresh)
next
  fix k :: string
  assume "k \<noteq> ''request_id''"
  then show "dict_get (add_request_id logger method_name event_dict uuid4) k = dict_get event_dict k"
    by (simp add: add_request_id_def dict_get_dict_set_other)
qed

theorem add_request_id_frame_witness:
  "add_request_id () ''info'' [(''event'', PyStr ''started''), (''attempt'', PyOther (3::nat))] ''4f1c''
     = [(''event'', PyStr ''started''), (''attempt'', PyOther 3), (''request_id'', PyStr ''4f1c'')] \<and>
   add_request_id () ''info'' [(''request_id'', PyStr ''abc''), (''event'', PyOther (0::nat))] ''4f1c''
     = [(''request_id'', PyStr ''abc''), (''event'', PyOther 0)] \<and>
   dict_get (add_request_id () ''info'' [(''event'', PyStr ''started''), (''attempt'', PyOther (3::nat))] ''4f1c'') ''attempt''
     = Some (PyOther 3)"
  using add_request_id_frame [of "[(''event'', PyStr ''started''), (''attempt'', PyOther (3::nat))]" "()" "''info''" "''4f1c''"]
    add_request_id_frame [of "[(''request_id'', PyStr ''abc''), (''event'', PyOther (0::nat))]" "()" "''info''" "''4f1c''"]
  by (simp add: dict_contains_def dict_get_def)

subsection \<open>C1: the frames of the focused section and the frames of the base trace\<close>

text \<open>
  The focused walk has no limit: whatever set of at most \<open>k\<close> frames a delegate shows,
  a chain with more than \<open>k\<close> user-code frames has a user-code frame that this
  delegate does not show.
\<close>

lemma any_limit_hides_a_focused_frame:
  "finite shown \<Longrightarrow> card shown < length (focused_positions env tb) \<Longrightarrow>
   \<not> set (focused_positions env tb) \<subseteq> shown"
proof
  assume f: "finite shown" and c: "card shown < length (focused_positions env tb)"
    and s: "set (focused_positions env tb) \<subseteq> shown"
  have "distinct (focused_positions env tb)" by (simp add: focused_positions_def)
  then have "card (set (focused_positions env tb)) = length (focused_positions env tb)"
    by (rule distinct_card)
  moreover have "card (set (focused_positions env tb)) \<le> card shown"
    using f s by (rule card_mono)
  ultimately show False using c by simp
qed

lemma print_var_onto: "print_var self name v sio = onto sio (print_var self name v [])"
  by (cases "render_value self v") (simp_all add: print_var_def sio_write_def)

lemma onto_onto: "onto sio (onto s w) = onto (sio @ s) w"
  by (cases w) simp_all

lemma print_vars_onto: "print_vars self ls sio = onto sio (print_vars self ls [])"
proof (induction ls arbitrary: sio)
  case Nil
  show ?case by simp
next
  case (Cons b ls)
  obtain name v where b: "b = (name, v)" by (cases b)
  show ?case
  proof (cases "print_var self name v []")
    case (Done s)
    then have "print_var self name v sio = Done (sio @ s)"
      using print_var_onto [of self name v sio] by simp
    with Done b show ?thesis
      using Cons [of "sio @ s"] Cons [of s] by (simp add: onto_onto)
  next
    case (Raised e s)
    then have "print_var self name v sio = Raised e (sio @ s)"
      using print_var_onto [of self name v sio] by simp
    with Raised b show ?thesis by simp
  qed
qed

lemma print_frame_onto: "print_frame self fi sio = onto sio (print_frame self fi [])"
proof -
  have "print_vars self ls (sio @ [h]) = onto sio (print_vars self ls [h])" for ls h
    using print_vars_onto [of self ls "sio @ [h]"] print_vars_onto [of self ls "[h]"]
    by (simp add: onto_onto)
  then show ?thesis by (simp add: print_frame_def sio_write_def Let_def)
qed

lemma sink_of_onto: "sink_of (onto sio w) = sio @ sink_of w"
  by (cases w) simp_all

lemma frame_output_header: "\<exists>lines. frame_output self fi = frame_header fi # lines"
  using print_frame_sink [of self fi "[]"] unfolding frame_output_def by auto

lemma print_frames_shown:
  "\<exists>k. k \<le> length fis \<and> (fis \<noteq> [] \<longrightarrow> 0 < k) \<and>
       sink_of (print_frames self fis sio) = sio @ concat (map (frame_output self) (take k fis)) \<and>
       (\<forall>sio'. print_frames self fis sio = Done sio' \<longrightarrow> k = length fis)"
proof (induction fis arbitrary: sio)
  case Nil
  show ?case by simp
next
  case (Cons fi fis)
  show ?case
  proof (cases "print_frame self fi []")
    case (Raised e s)
    then have "print_frame self fi sio = Raised e (sio @ s)"
      using print_frame_onto [of self fi sio] by simp
    with Raised have "sink_of (print_frames self (fi # fis) sio) = sio @ frame_output self fi"
      and "\<forall>sio'. print_frames self (fi # fis) sio \<noteq> Done sio'"
      by (simp_all add: frame_output_def)
    then show ?thesis by (intro exI [of _ 1]) simp
  next
    case (Done s)
    then have pf: "print_frame self fi sio = Done (sio @ s)"
      using print_frame_onto [of self fi sio] by simp
    from Done have fo: "frame_output self fi = s" by (simp add: frame_output_def)
    from Cons [of "sio @ s"] obtain k where k: "k \<le> length fis"
      "sink_of (print_frames self fis (sio @ s)) = (sio @ s) @ concat (map (frame_output self) (take k fis))"
      "\<forall>sio'. print_frames self fis (sio @ s) = Done sio' \<longrightarrow> k = length fis"
      by blast
    show ?thesis
      by (intro exI [of _ "Suc k"]) (use k pf fo in simp)
  qed
qed

lemma render_value_max_frames: "render_value (self\<lparr>max_frames := m\<rparr>) v = render_value self v"
  by (simp add: render_value_def split: outcome.splits)

lemma print_var_max_frames: "print_var (self\<lparr>max_frames := m\<rparr>) name v sio = print_var self name v sio"
  by (simp add: print_var_def render_value_max_frames)

lemma print_vars_max_frames: "print_vars (self\<lparr>max_frames := m\<rparr>) ls sio = print_vars self ls sio"
  by (induction ls arbitrary: sio) (auto simp: print_var_max_frames split: written.splits)

lemma print_frame_max_frames: "print_frame (self\<lparr>max_frames := m\<rparr>) fi sio = print_frame self fi sio"
  by (simp add: print_frame_def print_vars_max_frames Let_def)

lemma print_frames_max_frames: "print_frames (self\<lparr>max_frames := m\<rparr>) fis sio = print_frames self fis sio"
  by (induction fis arbitrary: sio) (auto simp: print_frame_max_frames split: written.splits)

lemma six_frames_base_trace: "base_trace_positions (max_frames example_formatter) six_frames = [0, 1, 4, 5]"
  by code_simp

lemma shown_indices_within_limit:
  "4 \<le> m \<Longrightarrow> int (length (shown_indices m n)) \<le> m"
proof -
  assume m: "4 \<le> m"
  define h where "h = nat (m div 2)"
  have "set (shown_indices m n) \<subseteq> {0..<h} \<union> {n - h..<n}"
    using m by (auto simp: shown_indices_def h_def)
  moreover have "distinct (shown_indices m n)"
    by (simp add: shown_indices_def)
  ultimately have "length (shown_indices m n) \<le> card ({0..<h} \<union> {n - h..<n})"
    by (metis distinct_card card_mono finite_Un finite_atLeastLessThan)
  also have "\<dots> \<le> card {0..<h} + card {n - h..<n}" by (rule card_Un_le)
  also have "\<dots> \<le> h + h" by simp
  finally have "int (length (shown_indices m n)) \<le> 2 * int h" by simp
  also have "\<dots> \<le> m" using m by (simp add: h_def)
  finally show ?thesis .
qed

lemma base_trace_within_limit:
  "0 < limit \<Longrightarrow> int (length (base_trace_positions limit tb)) \<le> rich_max_frames limit"
  using shown_indices_within_limit [of "rich_max_frames limit" "length (rich_extract tb 0 [])"]
  by (simp add: base_trace_positions_def Let_def rich_max_frames_def)

lemma outer_inner_positions: "focused_positions Map.empty outer_inner = [0, 2]"
  by (simp add: focused_positions_def outer_inner_def step_node_user lib_node_not_user upt_rec)

lemma two_user_frames_positions: "focused_positions Map.empty two_user_frames = [0, 1]"
  by (simp add: focused_positions_def two_user_frames_def step_node_user upt_rec)

lemma outer_inner_no_interrupt:
  "\<forall>t \<in> set outer_inner. \<forall>b \<in> set (f_locals (tb_frame t)). render_value self (snd b) \<noteq> RaisesBaseException"
  by (simp add: outer_inner_def step_node_def lib_node_def render_plain_value)

lemma two_user_frames_interrupted:
  "FocusedTracebackFormatter_call (\<lambda>w m e. Inr ''base trace'') Map.empty example_formatter []
       (''KeyError'', ''missing_key'', two_user_frames)
     = Raised ReprBaseException
         [''base trace'', section_header, frame_header (frame_info_of (two_user_frames ! 0))]"
proof -
  have f: "filter_locals [(''job'', interrupting_value)] = [(''job'', interrupting_value)]"
    by (simp add: filter_locals_def startswith_def interrupting_value_def)
  have l: "fi_locals (frame_info_of (step_node 11 [(''job'', interrupting_value)]))
             = [(''job'', interrupting_value)]"
    by (simp add: frame_info_of_def step_node_def)
  have v: "print_var example_formatter ''job'' interrupting_value s = Raised ReprBaseException s" for s
    by (simp add: print_var_def render_value_def interrupting_value_def)
  have "print_frame example_formatter (frame_info_of (step_node 11 [(''job'', interrupting_value)])) s
          = Raised ReprBaseException
              (s @ [frame_header (frame_info_of (step_node 11 [(''job'', interrupting_value)]))])" for s
    by (simp add: print_frame_def l f v sio_write_def)
  then show ?thesis
    by (simp add: FocusedTracebackFormatter_call_def print_user_code_locals_def walk_frames_eq
        two_user_frames_def step_node_user sio_write_def)
qed

text \<open>
  C1, as the code has it. When the delegate has rendered the base trace, the formatter
  writes it and then the focused section. The frames shown there, each with its header
  first, are user-code frames of the exception's traceback chain, in chain order from
  the first one on: all of them when the call returns, and otherwise those up to the
  frame at which a value let an exception through. They are positions of the chain
  that the classifier accepts, and max\_frames plays no part in the focused section.
\<close>

theorem focused_frames_within_chain:
  assumes "render_base (width self) (max_frames self) (exc_type, exc_value, exc_tb) = Inr base"
  shows "(\<exists>k. k \<le> length (focused_positions env exc_tb) \<and>
            (focused_positions env exc_tb \<noteq> [] \<longrightarrow> 0 < k) \<and>
            sink_of (FocusedTracebackFormatter_call render_base env self sio (exc_type, exc_value, exc_tb))
              = sio @ base #
                  (if focused_positions env exc_tb = [] then []
                   else section_header #
                        concat (map (\<lambda>i. frame_output self (frame_info_of (exc_tb ! i)))
                                  (take k (focused_positions env exc_tb)))) \<and>
            (\<forall>sio'. FocusedTracebackFormatter_call render_base env self sio (exc_type, exc_value, exc_tb)
                       = Done sio'
                 \<longrightarrow> k = length (focused_positions env exc_tb))) \<and>
         set (focused_positions env exc_tb) = {i. i < length exc_tb \<and> is_user_node env (exc_tb ! i)} \<and>
         (\<forall>fi. \<exists>lines. frame_output self fi = frame_header fi # lines) \<and>
         (\<forall>m. print_user_code_locals env (self\<lparr>max_frames := m\<rparr>) sio exc_tb
                = print_user_code_locals env self sio exc_tb)"
proof (intro conjI allI)
  let ?fp = "focused_positions env exc_tb"
  let ?fis = "map (\<lambda>i. frame_info_of (exc_tb ! i)) ?fp"
  have call: "FocusedTracebackFormatter_call render_base env self sio (exc_type, exc_value, exc_tb)
                = print_user_code_locals env self (sio @ [base]) exc_tb"
    using assms by (simp add: FocusedTracebackFormatter_call_def sio_write_def)
  have w: "walk_frames env exc_tb [] = ?fis" by (rule walk_frames_positions)
  show "\<exists>k. k \<le> length ?fp \<and> (?fp \<noteq> [] \<longrightarrow> 0 < k) \<and>
            sink_of (FocusedTracebackFormatter_call render_base env self sio (exc_type, exc_value, exc_tb))
              = sio @ base #
                  (if ?fp = [] then []
                   else section_header #
                        concat (map (\<lambda>i. frame_output self (frame_info_of (exc_tb ! i))) (take k ?fp))) \<and>
            (\<forall>sio'. FocusedTracebackFormatter_call render_base env self sio (exc_type, exc_value, exc_tb)
                       = Done sio'
                 \<longrightarrow> k = length ?fp)"
  proof (cases "?fp = []")
    case True
    then have "print_user_code_locals env self (sio @ [base]) exc_tb = Done (sio @ [base])"
      by (simp add: print_user_code_locals_def w)
    with True call show ?thesis by simp
  next
    case False
    then have p: "print_user_code_locals env self (sio @ [base]) exc_tb
                    = print_frames self ?fis (sio @ [base, section_header])"
      by (simp add: print_user_code_locals_def w sio_write_def)
    from print_frames_shown [of ?fis self "sio @ [base, section_header]"]
    obtain k where k: "k \<le> length ?fis" "?fis \<noteq> [] \<longrightarrow> 0 < k"
      "sink_of (print_frames self ?fis (sio @ [base, section_header]))
         = (sio @ [base, section_header]) @ concat (map (frame_output self) (take k ?fis))"
      "\<forall>sio'. print_frames self ?fis (sio @ [base, section_header]) = Done sio' \<longrightarrow> k = length ?fis"
      by blast
    have "map (frame_output self) (take k ?fis)
            = map (\<lambda>i. frame_output self (frame_info_of (exc_tb ! i))) (take k ?fp)"
      by (simp add: take_map comp_def)
    with k False call p show ?thesis
      by (intro exI [of _ k]) simp
  qed
  show "set ?fp = {i. i < length exc_tb \<and> is_user_node env (exc_tb ! i)}"
    by (rule focused_positions_set)
  show "\<exists>lines. frame_output self fi = frame_header fi # lines" for fi
    by (rule frame_output_header)
  show "print_user_code_locals env (self\<lparr>max_frames := m\<rparr>) sio exc_tb
          = print_user_code_locals env self sio exc_tb" for m
    by (simp add: print_user_code_locals_def print_frames_max_frames Let_def)
qed

theorem focused_frames_within_chain_witness:
  "focused_positions Map.empty outer_inner = [0, 2] \<and>
   FocusedTracebackFormatter_call (\<lambda>w m e. Inr ''base trace'') Map.empty example_formatter []
       (''KeyError'', ''missing_key'', outer_inner)
     = Done ([''base trace'', section_header]
             @ frame_output example_formatter (frame_info_of (outer_inner ! 0))
             @ frame_output example_formatter (frame_info_of (outer_inner ! 2))) \<and>
   focused_positions Map.empty two_user_frames = [0, 1] \<and>
   FocusedTracebackFormatter_call (\<lambda>w m e. Inr ''base trace'') Map.empty example_formatter []
       (''KeyError'', ''missing_key'', two_user_frames)
     = Raised ReprBaseException
         [''base trace'', section_header, frame_header (frame_info_of (two_user_frames ! 0))]"
proof -
  let ?call = "FocusedTracebackFormatter_call (\<lambda>w m e. Inr ''base trace'') Map.empty example_formatter []
       (''KeyError'', ''missing_key'', outer_inner)"
  have r: "(\<lambda>w m e. Inr ''base trace'') (width example_formatter) (max_frames example_formatter)
             (''KeyError'', ''missing_key'', outer_inner) = (Inr ''base trace'' :: pyexc + string)"
    by simp
  note t0 = focused_frames_within_chain [where render_base = "\<lambda>w m e. Inr ''base trace''"
      and self = example_formatter and exc_type = "''KeyError''" and exc_value = "''missing_key''"
      and exc_tb = outer_inner and base = "''base trace''" and env = Map.empty and sio = "[]"]
  note t = t0 [OF r]
  obtain s' where d: "?call = Done s'"
    using print_user_code_locals_eq [OF outer_inner_no_interrupt, of Map.empty example_formatter "[''base trace'']"]
    by (simp add: FocusedTracebackFormatter_call_def sio_write_def)
  from t obtain k where k: "sink_of ?call = [] @ ''base trace'' #
       (if focused_positions Map.empty outer_inner = [] then []
        else section_header #
             concat (map (\<lambda>i. frame_output example_formatter (frame_info_of (outer_inner ! i)))
                       (take k (focused_positions Map.empty outer_inner))))"
    and "\<forall>sio'. ?call = Done sio' \<longrightarrow> k = length (focused_positions Map.empty outer_inner)"
    by blast
  with d have "k = 2" by (simp add: outer_inner_positions)
  with k d have "?call = Done ([''base trace'', section_header]
             @ frame_output example_formatter (frame_info_of (outer_inner ! 0))
             @ frame_output example_formatter (frame_info_of (outer_inner ! 2)))"
    by (simp add: outer_inner_positions)
  with outer_inner_positions two_user_frames_positions two_user_frames_interrupted
  show ?thesis by blast
qed

text \<open>
  C1 as it is stated fails. With max\_frames = 4 and a chain of six user-code frames the
  base trace hides the two middle frames, and the focused section shows the locals of
  all six.
\<close>

theorem focused_section_exceeds_base_trace:
  "\<not> set (focused_positions Map.empty six_frames)
       \<subseteq> set (base_trace_positions (max_frames example_formatter) six_frames) \<and>
   2 \<in> set (focused_positions Map.empty six_frames) \<and>
   2 \<notin> set (base_trace_positions (max_frames example_formatter) six_frames) \<and>
   frame_header (frame_info_of (six_frames ! 2))
     \<in> set (sink_of (FocusedTracebackFormatter_call (\<lambda>w m e. Inr ''base trace'') Map.empty
                        example_formatter [] (''RecursionError'', ''too deep'', six_frames)))"
proof -
  have a: "2 \<in> set (focused_positions Map.empty six_frames)"
    by (simp add: focused_positions_set six_frames_def step_node_user)
  have b: "2 \<notin> set (base_trace_positions (max_frames example_formatter) six_frames)"
    by (simp add: six_frames_base_trace)
  have c: "FocusedTracebackFormatter_call (\<lambda>w m e. Inr ''base trace'') Map.empty
             example_formatter [] (''RecursionError'', ''too deep'', six_frames)
           = print_user_code_locals Map.empty example_formatter [''base trace''] six_frames"
    by (simp add: FocusedTracebackFormatter_call_def sio_write_def)
  obtain sio' where d: "print_user_code_locals Map.empty example_formatter [''base trace''] six_frames
                         = Done sio'"
    using print_user_code_locals_eq [OF six_frames_no_interrupt] by blast
  have "six_frames ! 2 \<in> set six_frames" by (simp add: six_frames_def)
  moreover have "is_user_node Map.empty (six_frames ! 2)" by (simp add: six_frames_def step_node_user)
  ultimately have "frame_header (frame_info_of (six_frames ! 2)) \<in> set sio'"
    using d by (rule user_frame_headers_written [rotated])
  with a b c d show ?thesis by auto
qed

subsection \<open>C2: the filtering law\<close>

text \<open>
  C2. For a frame whose local names are distinct (it is a dictionary) and none of whose
  surviving values lets an exception other than an error out of its rendering
  (\<^verbatim>\<open>repr\<close> and the length, slice and formatting of what it returns), the filtered
  dictionary is the original bindings without those whose name starts with an
  underscore, is \<^verbatim>\<open>self\<close> or \<^verbatim>\<open>cls\<close>, or whose value is callable, in their original
  order; and the variable lines written after the frame's header are, in that order,
  one line for each surviving name.
\<close>

theorem filtering_law:
  assumes "distinct (map fst (fi_locals fi))"
    and "\<forall>b \<in> set (surviving (fi_locals fi)). render_value self (snd b) \<noteq> RaisesBaseException"
  shows "filter_locals (fi_locals fi) = surviving (fi_locals fi) \<and>
    print_frame self fi sio
      = Done (sio @ frame_header fi #
                (if surviving (fi_locals fi) = []
                 then [if fi_locals fi = [] then no_locals_line else no_relevant_locals_line]
                 else map2 value_line (map fst (surviving (fi_locals fi)))
                        (map (shown_text self \<circ> snd) (surviving (fi_locals fi)))))"
proof -
  have f: "filter_locals (fi_locals fi) = surviving (fi_locals fi)"
    using assms(1) by (rule filter_locals_surviving)
  have m: "map (\<lambda>b. value_line (fst b) (shown_text self (snd b))) xs
             = map2 value_line (map fst xs) (map (shown_text self \<circ> snd) xs)" for xs :: "(string, pyobject) dict"
    by (induction xs) auto
  have "print_frame self fi sio = Done (sio @ frame_lines self fi)"
    using assms(2) f by (simp add: print_frame_eq)
  then have "print_frame self fi sio
       = Done (sio @ frame_header fi #
                 (if surviving (fi_locals fi) = []
                  then [if fi_locals fi = [] then no_locals_line else no_relevant_locals_line]
                  else map2 value_line (map fst (surviving (fi_locals fi)))
                         (map (shown_text self \<circ> snd) (surviving (fi_locals fi)))))"
    by (auto simp: frame_lines_def f m surviving_def)
  with f show ?thesis by blast
qed

lemma mixed_surviving:
  "surviving mixed_locals
     = [(''user_id'', plain_value ''42''), (''conn'', hostile_value), (''data'', plain_value ''{}'')]"
  by (simp add: surviving_def mixed_locals_def removed_by_filter_def starts_with_underscore_def
      plain_value_def hostile_value_def function_value_def)

theorem filtering_law_witness:
  "distinct (map fst mixed_locals) \<and>
   filter_locals mixed_locals
     = [(''user_id'', plain_value ''42''), (''conn'', hostile_value), (''data'', plain_value ''{}'')] \<and>
   print_frame example_formatter (frame_info_of (step_node 12 mixed_locals)) []
     = Done [frame_header (frame_info_of (step_node 12 mixed_locals)),
             value_line ''user_id'' ''42'', value_line ''conn'' placeholder, value_line ''data'' ''{}'']"
proof -
  have l: "fi_locals (frame_info_of (step_node 12 mixed_locals)) = mixed_locals"
    by (simp add: frame_info_of_def step_node_def)
  have d: "distinct (map fst mixed_locals)" by (simp add: mixed_locals_def)
  have r: "\<forall>b \<in> set (surviving mixed_locals).
             render_value example_formatter (snd b) \<noteq> RaisesBaseException"
    by (simp add: mixed_surviving render_plain_value render_hostile_value)
  have t: "shown_text example_formatter (plain_value ''42'') = ''42''"
      "shown_text example_formatter hostile_value = placeholder"
      "shown_text example_formatter (plain_value ''{}'') = ''{}''"
    by (simp_all add: shown_text_def render_plain_value render_hostile_value truncate_repr_def
        example_formatter_def)
  note c = filtering_law [where fi = "frame_info_of (step_node 12 mixed_locals)"
      and self = example_formatter and sio = "[]"]
  from c d r l have 1: "filter_locals mixed_locals = surviving mixed_locals"
    and 2: "print_frame example_formatter (frame_info_of (step_node 12 mixed_locals)) []
      = Done ([] @ frame_header (frame_info_of (step_node 12 mixed_locals)) #
                (if surviving mixed_locals = []
                 then [if mixed_locals = [] then no_locals_line else no_relevant_locals_line]
                 else map2 value_line (map fst (surviving mixed_locals))
                        (map (shown_text example_formatter \<circ> snd) (surviving mixed_locals))))"
    by simp_all
  from 2 have "print_frame example_formatter (frame_info_of (step_node 12 mixed_locals)) []
     = Done [frame_header (frame_info_of (step_node 12 mixed_locals)),
             value_line ''user_id'' ''42'', value_line ''conn'' placeholder, value_line ''data'' ''{}'']"
    unfolding mixed_surviving by (simp add: t)
  with d 1 mixed_surviving show ?thesis by simp
qed

subsection \<open>C5: a representation that raises an error\<close>

text \<open>
  C5. A variable whose \<^verbatim>\<open>repr\<close> raises an error gets the placeholder line, and nothing
  is propagated (so does one whose representation raises an error when its length,
  slice or formatting is taken); the lines of the other variables are what they are
  without it, with the placeholder line in its place among them; and when no value
  lets anything but an error out of its rendering, \<open>print_user_code_locals\<close> returns,
  having written the section
  header and the lines of every user-code frame, each frame's lines depending on that
  frame alone.
\<close>

theorem repr_failure_placeholder:
  "(repr v = RaisesException
      \<longrightarrow> print_var self name v sio = Done (sio @ [value_line name placeholder])) \<and>
   (render_value self v = RaisesException
      \<longrightarrow> print_var self name v sio = Done (sio @ [value_line name placeholder])) \<and>
   (repr v = RaisesException \<and> print_vars self (xs @ ys) sio = Done (sio @ lines)
      \<longrightarrow> print_vars self (xs @ (name, v) # ys) sio
            = Done (sio @ take (length xs) lines @ value_line name placeholder # drop (length xs) lines)) \<and>
   ((\<forall>t \<in> set tb. \<forall>b \<in> set (f_locals (tb_frame t)). render_value self (snd b) \<noteq> RaisesBaseException)
      \<longrightarrow> print_user_code_locals env self sio tb
            = Done (sio @ (if filter (is_user_node env) tb = [] then []
                           else section_header #
                                concat (map (frame_lines self \<circ> frame_info_of)
                                          (filter (is_user_node env) tb)))))"
proof (intro conjI impI)
  assume "repr v = RaisesException"
  then show "print_var self name v sio = Done (sio @ [value_line name placeholder])"
    by (simp add: print_var_eq shown_text_def render_repr_error)
next
  assume "render_value self v = RaisesException"
  then show "print_var self name v sio = Done (sio @ [value_line name placeholder])"
    by (simp add: print_var_eq shown_text_def)
next
  assume a: "repr v = RaisesException \<and> print_vars self (xs @ ys) sio = Done (sio @ lines)"
  have ok: "\<forall>b \<in> set ls. render_value self (snd b) \<noteq> RaisesBaseException"
    if "print_vars self ls s = Done s'" for ls s s'
    using that
  proof (induction ls arbitrary: s)
    case Nil
    show ?case by simp
  next
    case (Cons b ls)
    obtain n w where b: "b = (n, w)" by (cases b)
    with Cons.prems obtain s1 where s1: "print_var self n w s = Done s1" "print_vars self ls s1 = Done s'"
      by (auto split: written.splits)
    from s1(1) have "render_value self w \<noteq> RaisesBaseException" by (auto simp: print_var_def)
    with Cons.IH [OF s1(2)] b show ?case by simp
  qed
  from a ok have all: "\<forall>b \<in> set (xs @ ys). render_value self (snd b) \<noteq> RaisesBaseException" by blast
  let ?line = "\<lambda>b. value_line (fst b) (shown_text self (snd b))"
  from all a have "lines = map ?line (xs @ ys)" by (simp add: print_vars_eq)
  then have l: "take (length xs) lines = map ?line xs" "drop (length xs) lines = map ?line ys"
    by simp_all
  from all a have "\<forall>b \<in> set (xs @ (name, v) # ys). render_value self (snd b) \<noteq> RaisesBaseException"
    by (auto simp: render_repr_error)
  then have "print_vars self (xs @ (name, v) # ys) sio = Done (sio @ map ?line (xs @ (name, v) # ys))"
    by (rule print_vars_eq)
  with a l show "print_vars self (xs @ (name, v) # ys) sio
            = Done (sio @ take (length xs) lines @ value_line name placeholder # drop (length xs) lines)"
    by (simp add: shown_text_def render_repr_error)
next
  assume "\<forall>t \<in> set tb. \<forall>b \<in> set (f_locals (tb_frame t)). render_value self (snd b) \<noteq> RaisesBaseException"
  then show "print_user_code_locals env self sio tb
            = Done (sio @ (if filter (is_user_node env) tb = [] then []
                           else section_header #
                                concat (map (frame_lines self \<circ> frame_info_of)
                                          (filter (is_user_node env) tb))))"
    by (rule print_user_code_locals_eq)
qed

theorem repr_failure_placeholder_witness:
  "print_var example_formatter ''conn'' hostile_value [] = Done [value_line ''conn'' placeholder] \<and>
   print_vars example_formatter
       [(''user_id'', plain_value ''42''), (''conn'', hostile_value), (''data'', plain_value ''{}'')] []
     = Done [value_line ''user_id'' ''42'', value_line ''conn'' placeholder, value_line ''data'' ''{}''] \<and>
   print_user_code_locals Map.empty example_formatter [] [step_node 12 mixed_locals, lib_node]
     = Done (section_header # frame_lines example_formatter (frame_info_of (step_node 12 mixed_locals)))"
proof -
  note c = repr_failure_placeholder [where v = hostile_value and self = example_formatter
      and name = "''conn''" and sio = "[]" and xs = "[(''user_id'', plain_value ''42'')]"
      and ys = "[(''data'', plain_value ''{}'')]"
      and lines = "[value_line ''user_id'' ''42'', value_line ''data'' ''{}'']"
      and env = Map.empty and tb = "[step_node 12 mixed_locals, lib_node]"]
  have h: "repr hostile_value = RaisesException" by (simp add: hostile_value_def)
  have o: "print_vars example_formatter ([(''user_id'', plain_value ''42'')] @ [(''data'', plain_value ''{}'')]) []
             = Done ([] @ [value_line ''user_id'' ''42'', value_line ''data'' ''{}''])"
    by (simp add: print_var_def render_plain_value sio_write_def value_line_def truncate_repr_def
        example_formatter_def)
  have a: "\<forall>t \<in> set [step_node 12 mixed_locals, lib_node].
             \<forall>b \<in> set (f_locals (tb_frame t)).
               render_value example_formatter (snd b) \<noteq> RaisesBaseException"
    by (simp add: step_node_def lib_node_def mixed_locals_def render_plain_value
        render_hostile_value render_function_value)
  have u: "filter (is_user_node Map.empty) [step_node 12 mixed_locals, lib_node]
             = [step_node 12 mixed_locals]"
    by (simp add: step_node_user lib_node_not_user)
  from c h have 1: "print_var example_formatter ''conn'' hostile_value [] = Done [value_line ''conn'' placeholder]"
    by simp
  from c h o have 2: "print_vars example_formatter
       [(''user_id'', plain_value ''42''), (''conn'', hostile_value), (''data'', plain_value ''{}'')] []
     = Done [value_line ''user_id'' ''42'', value_line ''conn'' placeholder, value_line ''data'' ''{}'']"
    by simp
  from c a have "print_user_code_locals Map.empty example_formatter [] [step_node 12 mixed_locals, lib_node]
     = Done ([] @ (if filter (is_user_node Map.empty) [step_node 12 mixed_locals, lib_node] = [] then []
                   else section_header #
                        concat (map (frame_lines example_formatter \<circ> frame_info_of)
                                  (filter (is_user_node Map.empty) [step_node 12 mixed_locals, lib_node]))))"
    by blast
  then have 3: "print_user_code_locals Map.empty example_formatter [] [step_node 12 mixed_locals, lib_node]
     = Done (section_header # frame_lines example_formatter (frame_info_of (step_node 12 mixed_locals)))"
    unfolding u by simp
  from 1 2 3 show ?thesis by blast
qed

subsection \<open>C7: the two markers\<close>

text \<open>
  C7. A rendered frame with no local bindings gets its header and the single line
  "no local variables"; one with bindings that the filter removes entirely gets its
  header and the single line "no relevant local variables"; the two lines differ; and
  no frame is left out: the header of a frame is always written, at least one line
  follows it when the frame's rendering returns, and when the whole focused section
  returns it holds the header of every user-code frame of the chain.
\<close>

theorem explicit_no_variables_markers:
  "(fi_locals fi = []
      \<longrightarrow> print_frame self fi sio = Done (sio @ [frame_header fi, no_locals_line])) \<and>
   (fi_locals fi \<noteq> [] \<and> (\<forall>b \<in> set (fi_locals fi). removed_by_filter b)
      \<longrightarrow> print_frame self fi sio = Done (sio @ [frame_header fi, no_relevant_locals_line])) \<and>
   no_locals_line \<noteq> no_relevant_locals_line \<and>
   (\<exists>lines. sink_of (print_frame self fi sio) = sio @ frame_header fi # lines \<and>
      (\<forall>s'. print_frame self fi sio = Done s' \<longrightarrow> lines \<noteq> [])) \<and>
   (\<forall>sio'. print_user_code_locals env self sio tb = Done sio'
      \<longrightarrow> (\<forall>t \<in> set tb. is_user_node env t \<longrightarrow> frame_header (frame_info_of t) \<in> set sio'))"
proof (intro conjI)
  show "fi_locals fi = [] \<longrightarrow> print_frame self fi sio = Done (sio @ [frame_header fi, no_locals_line])"
    by (simp add: print_frame_no_locals)
  show "fi_locals fi \<noteq> [] \<and> (\<forall>b \<in> set (fi_locals fi). removed_by_filter b)
      \<longrightarrow> print_frame self fi sio = Done (sio @ [frame_header fi, no_relevant_locals_line])"
    by (simp add: print_frame_all_removed)
  show "no_locals_line \<noteq> no_relevant_locals_line" by (rule markers_distinct)
  show "\<exists>lines. sink_of (print_frame self fi sio) = sio @ frame_header fi # lines \<and>
      (\<forall>s'. print_frame self fi sio = Done s' \<longrightarrow> lines \<noteq> [])"
    by (rule print_frame_sink)
  show "\<forall>sio'. print_user_code_locals env self sio tb = Done sio'
      \<longrightarrow> (\<forall>t \<in> set tb. is_user_node env t \<longrightarrow> frame_header (frame_info_of t) \<in> set sio')"
    by (blast intro: user_frame_headers_written)
qed

lemma noise_removed: "\<forall>b \<in> set noise_locals. removed_by_filter b"
  by (simp add: noise_locals_def removed_by_filter_def function_value_def)

theorem explicit_no_variables_markers_witness:
  "print_frame example_formatter (frame_info_of (step_node 12 [])) []
     = Done [frame_header (frame_info_of (step_node 12 [])), no_locals_line] \<and>
   print_frame example_formatter (frame_info_of (step_node 12 noise_locals)) []
     = Done [frame_header (frame_info_of (step_node 12 noise_locals)), no_relevant_locals_line] \<and>
   frame_header (frame_info_of (step_node 12 noise_locals))
     \<in> set (sink_of (print_user_code_locals Map.empty example_formatter []
                        [lib_node, step_node 12 noise_locals]))"
proof -
  note a = explicit_no_variables_markers [where fi = "frame_info_of (step_node 12 [])"
      and self = example_formatter and sio = "[]" and env = Map.empty and tb = "[]"]
  note b = explicit_no_variables_markers [where fi = "frame_info_of (step_node 12 noise_locals)"
      and self = example_formatter and sio = "[]" and env = Map.empty
      and tb = "[lib_node, step_node 12 noise_locals]"]
  have e: "fi_locals (frame_info_of (step_node 12 [])) = []"
    by (simp add: frame_info_of_def step_node_def)
  have n: "fi_locals (frame_info_of (step_node 12 noise_locals)) = noise_locals"
    by (simp add: frame_info_of_def step_node_def)
  have n': "noise_locals \<noteq> []" by (simp add: noise_locals_def)
  from a e have 1: "print_frame example_formatter (frame_info_of (step_node 12 [])) []
     = Done [frame_header (frame_info_of (step_node 12 [])), no_locals_line]" by simp
  from b n n' noise_removed
  have 2: "print_frame example_formatter (frame_info_of (step_node 12 noise_locals)) []
     = Done [frame_header (frame_info_of (step_node 12 noise_locals)), no_relevant_locals_line]"
    by simp
  have "print_frame example_formatter (frame_info_of (step_node 12 noise_locals)) [section_header]
     = Done ([section_header] @ [frame_header (frame_info_of (step_node 12 noise_locals)),
             no_relevant_locals_line])"
    using n n' noise_removed by (simp add: print_frame_all_removed)
  then have "print_user_code_locals Map.empty example_formatter [] [lib_node, step_node 12 noise_locals]
     = Done [section_header, frame_header (frame_info_of (step_node 12 noise_locals)),
             no_relevant_locals_line]"
    by (simp add: print_user_code_locals_def walk_frames_eq lib_node_not_user
        step_node_user sio_write_def)
  with 1 2 show ?thesis by simp
qed

end
